(* ===== verification/Ipc_Prelude.thy ===== *)
theory Ipc_Prelude
  imports Main "HOL-Library.Word" "HOL-Library.Signed_Division" "HOL-Library.Sublist"
begin

text \<open>
  The vocabulary every other theory of the development shares: names for the machine integers the
  sources use, the outcome type of C++ code that may run into undefined behaviour, the return codes of
  \<^verbatim>\<open>src/sources/common/error_handling.h\<close>, and generic lemmas on lists, maps and
  integers. The three \<^theory_text>\<open>named_theorems\<close> collections below carry the automation of
  the component theories.
\<close>

named_theorems ipc_defs \<open>definitions of operations, unfolded when an operation is evaluated\<close>
named_theorems inv_pres \<open>facts that an operation keeps the invariant of its component\<close>
named_theorems cpp_simps \<open>rewrite rules for outcomes of C++ code\<close>

section \<open>Machine integers\<close>

type_synonym u8 = "8 word"
type_synonym u32 = "32 word"
type_synonym u64 = "64 word"
type_synonym i32 = "32 word" \<comment> \<open>read with \<^const>\<open>sint\<close>\<close>

text \<open>The range of \<^verbatim>\<open>int32_t\<close>.\<close>

definition in_i32 :: "int \<Rightarrow> bool" where
  "in_i32 x \<longleftrightarrow> - (2 ^ 31) \<le> x \<and> x < 2 ^ 31"

section \<open>Outcomes of C++ code\<close>

text \<open>
  A call either returns, which is \<^term>\<open>Inr x\<close>, or it does not, which is
  \<^term>\<open>Inl h\<close>: the standard leaves its behaviour undefined, an exception leaves it
  that nothing in the program catches, or it is still blocked after all the events the model was
  given. From there on nothing is known of the process.
\<close>

datatype halt =
    Signed_Overflow \<comment> \<open>undefined: a signed arithmetic result outside its type\<close>
  | Div_By_Zero \<comment> \<open>undefined: integer division by zero\<close>
  | Null_Deref \<comment> \<open>undefined: a null pointer is dereferenced\<close>
  | Empty_Front \<comment> \<open>undefined: \<open>front\<close> or \<open>pop_front\<close> of an empty container\<close>
  | Length_Error \<comment> \<open>an uncaught \<open>std::length_error\<close>\<close>
  | Scan_Range \<comment> \<open>undefined: \<open>sscanf\<close> reads a number outside the type it stores\<close>
  | Uncaught int \<comment> \<open>an exception of ZeroMQ with its number, or another one (number 0)\<close>
  | Blocked \<comment> \<open>still waiting\<close>

type_synonym 'a cpp = "halt + 'a"

definition cpp_bind :: "'a cpp \<Rightarrow> ('a \<Rightarrow> 'b cpp) \<Rightarrow> 'b cpp" where
  "cpp_bind m f = (case m of Inl u \<Rightarrow> Inl u | Inr x \<Rightarrow> f x)"

definition cpp_defined :: "'a cpp \<Rightarrow> bool" where
  "cpp_defined m \<longleftrightarrow> (\<exists>x. m = Inr x)"

section \<open>Return codes\<close>

definition EC_SUCCESS :: int where
  "EC_SUCCESS = 0"

definition EC_FAILURE :: int where
  "EC_FAILURE = - 1"

section \<open>Generic lemmas\<close>

lemma cpp_bind_Inl [simp, cpp_simps]: "cpp_bind (Inl u) f = Inl u"
  by (simp add: cpp_bind_def)

lemma cpp_bind_Inr [simp, cpp_simps]: "cpp_bind (Inr x) f = f x"
  by (simp add: cpp_bind_def)

lemma cpp_bind_eq_Inr [cpp_simps]:
  "cpp_bind m f = Inr y \<longleftrightarrow> (\<exists>x. m = Inr x \<and> f x = Inr y)"
  by (cases m) auto

lemma cpp_bind_eq_Inl [cpp_simps]:
  "cpp_bind m f = Inl u \<longleftrightarrow> m = Inl u \<or> (\<exists>x. m = Inr x \<and> f x = Inl u)"
  by (cases m) auto

lemma cpp_bind_assoc: "cpp_bind (cpp_bind m f) g = cpp_bind m (\<lambda>x. cpp_bind (f x) g)"
  by (cases m) auto

lemma cpp_defined_simps [simp, cpp_simps]:
  "cpp_defined (Inr x)" "\<not> cpp_defined (Inl u)"
  by (auto simp: cpp_defined_def)

lemma cpp_defined_bind:
  "cpp_defined (cpp_bind m f) \<longleftrightarrow> (\<exists>x. m = Inr x \<and> cpp_defined (f x))"
  by (cases m) auto

lemma EC_distinct [simp]: "EC_SUCCESS \<noteq> EC_FAILURE" "EC_FAILURE \<noteq> EC_SUCCESS"
  by (simp_all add: EC_SUCCESS_def EC_FAILURE_def)

lemma in_i32_sint [simp]: "in_i32 (sint (a :: i32))"
  using sint_range_size [of a] by (simp add: in_i32_def word_size)

lemma sint_word_of_int_i32: "in_i32 x \<Longrightarrow> sint (word_of_int x :: i32) = x"
  by (auto simp: in_i32_def signed_of_int signed_take_bit_int_eq_self)

lemma sint_i32_zero_iff: "sint (b :: i32) = 0 \<longleftrightarrow> b = 0"
  by (metis signed_0 signed_word_eqI)

end
