(* ===== verification/Cpp_Std.thy ===== *)
theory Cpp_Std
  imports Ipc_Prelude
begin

text \<open>
  The parts of the C++ language and of its standard library that the sources use and that the
  component theories call: signed 32-bit arithmetic with its undefined cases, the substring search
  \<^verbatim>\<open>std::string::find\<close> and the decimal conversions of
  \<^verbatim>\<open>printf\<close> and \<^verbatim>\<open>fmt\<close>. A
  \<^verbatim>\<open>std::string\<close> is the list of its bytes.
\<close>

section \<open>Signed arithmetic\<close>

definition add_i32 :: "i32 \<Rightarrow> i32 \<Rightarrow> i32 cpp" where
  "add_i32 a b = (if in_i32 (sint a + sint b) then Inr (a + b) else Inl Signed_Overflow)"

definition sub_i32 :: "i32 \<Rightarrow> i32 \<Rightarrow> i32 cpp" where
  "sub_i32 a b = (if in_i32 (sint a - sint b) then Inr (a - b) else Inl Signed_Overflow)"

definition mul_i32 :: "i32 \<Rightarrow> i32 \<Rightarrow> i32 cpp" where
  "mul_i32 a b = (if in_i32 (sint a * sint b) then Inr (a * b) else Inl Signed_Overflow)"

text \<open>Integer division truncates towards zero (\<^const>\<open>signed_divide\<close>).\<close>

definition div_i32 :: "i32 \<Rightarrow> i32 \<Rightarrow> i32 cpp" where
  "div_i32 a b =
     (if b = 0 then Inl Div_By_Zero
      else if in_i32 (sint a sdiv sint b) then Inr (word_of_int (sint a sdiv sint b))
      else Inl Signed_Overflow)"

section \<open>Substring search\<close>

text \<open>\<^verbatim>\<open>hay.find(needle)\<close>, with \<^verbatim>\<open>npos\<close> as \<^const>\<open>None\<close>.\<close>

fun std_find :: "string \<Rightarrow> string \<Rightarrow> nat option" where
  "std_find [] n = (if n = [] then Some 0 else None)"
| "std_find (c # cs) n =
     (if prefix n (c # cs) then Some 0 else map_option Suc (std_find cs n))"

section \<open>Decimal output\<close>

definition digit_char :: "nat \<Rightarrow> char" where
  "digit_char d = char_of (48 + d)"

fun show_nat :: "nat \<Rightarrow> string" where
  "show_nat n = (if n < 10 then [digit_char n] else show_nat (n div 10) @ [digit_char (n mod 10)])"

declare show_nat.simps [simp del]

definition show_int :: "int \<Rightarrow> string" where
  "show_int i = (if i < 0 then CHR ''-'' # show_nat (nat (- i)) else show_nat (nat i))"

section \<open>Facts about the arithmetic\<close>

lemma add_i32_Inr: "add_i32 a b = Inr c \<Longrightarrow> sint c = sint a + sint b"
  using sint_word_of_int_i32 [of "sint a + sint b"]
  by (auto simp: add_i32_def wi_hom_syms split: if_splits)

lemma sub_i32_Inr: "sub_i32 a b = Inr c \<Longrightarrow> sint c = sint a - sint b"
  using sint_word_of_int_i32 [of "sint a - sint b"]
  by (auto simp: sub_i32_def wi_hom_syms split: if_splits)

lemma mul_i32_Inr: "mul_i32 a b = Inr c \<Longrightarrow> sint c = sint a * sint b"
  using sint_word_of_int_i32 [of "sint a * sint b"]
  by (auto simp: mul_i32_def wi_hom_syms split: if_splits)

lemma div_i32_Inr: "div_i32 a b = Inr c \<Longrightarrow> sint c = sint a sdiv sint b \<and> b \<noteq> 0"
  using sint_word_of_int_i32 [of "sint a sdiv sint b"]
  by (auto simp: div_i32_def split: if_splits)

lemma abs_sdiv_le: "\<bar>x sdiv y\<bar> \<le> \<bar>x :: int\<bar>"
proof -
  have "\<bar>x sdiv y\<bar> \<le> \<bar>x\<bar> div \<bar>y\<bar>"
    by (auto simp: signed_divide_int_def abs_mult sgn_if div_int_pos_iff)
  also have "\<bar>x\<bar> div \<bar>y\<bar> \<le> \<bar>x\<bar>"
    using zdiv_mono2 [of "\<bar>x\<bar>" 1 "\<bar>y\<bar>"] by (cases "y = 0") auto
  finally show ?thesis .
qed

text \<open>The only quotient of two 32-bit integers that overflows is \<open>INT_MIN / -1\<close>.\<close>

lemma sdiv_in_i32_iff:
  assumes "in_i32 x" and "in_i32 y" and "y \<noteq> 0"
  shows "in_i32 (x sdiv y) \<longleftrightarrow> \<not> (x = - (2 ^ 31) \<and> y = - 1)"
proof (cases "x = - (2 ^ 31)")
  case False
  with assms(1) have "\<bar>x\<bar> < 2 ^ 31" by (auto simp: in_i32_def)
  with abs_sdiv_le [of x y] have "\<bar>x sdiv y\<bar> < 2 ^ 31" by linarith
  then show ?thesis using False by (auto simp: in_i32_def)
next
  case x: True
  show ?thesis
  proof (cases "y = - 1")
    case True
    with x show ?thesis by (simp add: in_i32_def signed_divide_int_def)
  next
    case False
    show ?thesis
    proof (cases "0 < y")
      case True
      with x have "x sdiv y \<le> 0"
        by (simp add: signed_divide_int_def pos_imp_zdiv_nonneg_iff)
      with abs_sdiv_le [of x y] x have "in_i32 (x sdiv y)" by (auto simp: in_i32_def)
      with False show ?thesis by simp
    next
      case neg: False
      with \<open>y \<noteq> 0\<close> False have "2 \<le> \<bar>y\<bar>" by linarith
      then have "(2 ^ 31 :: int) div \<bar>y\<bar> \<le> 2 ^ 31 div 2" by (intro zdiv_mono2) auto
      moreover have "x sdiv y = 2 ^ 31 div \<bar>y\<bar>"
        using x neg \<open>y \<noteq> 0\<close> by (simp add: signed_divide_int_def sgn_if)
      moreover have "0 \<le> (2 ^ 31 :: int) div \<bar>y\<bar>" by (simp add: pos_imp_zdiv_nonneg_iff \<open>y \<noteq> 0\<close>)
      ultimately have "in_i32 (x sdiv y)" by (simp add: in_i32_def)
      with False show ?thesis by simp
    qed
  qed
qed

section \<open>Facts about the search\<close>

lemma std_find_eq_Some:
  "std_find h n = Some i \<longleftrightarrow>
     i \<le> length h \<and> prefix n (drop i h) \<and> (\<forall>j < i. \<not> prefix n (drop j h))"
proof (induction h n arbitrary: i rule: std_find.induct)
  case (1 n)
  then show ?case by auto
next
  case (2 c cs n)
  show ?case
  proof (cases "prefix n (c # cs)")
    case True
    then show ?thesis by (cases i) auto
  next
    case False
    then show ?thesis
      using 2 by (cases i) (auto simp: less_Suc_eq_0_disj)
  qed
qed

lemma std_find_eq_None: "std_find h n = None \<longleftrightarrow> \<not> sublist n h"
proof (induction h n rule: std_find.induct)
  case (2 c cs n)
  then show ?case by (auto simp: sublist_Cons_right)
qed auto

lemma std_find_bound: "std_find h n = Some i \<Longrightarrow> i + length n \<le> length h"
  using prefix_length_le [of n "drop i h"] by (auto simp: std_find_eq_Some)

end
