(* ===== verification/Ipc_Messages.thy ===== *)
theory Ipc_Messages
  imports Cpp_Std
begin

text \<open>
  The messages of \<^verbatim>\<open>src/protos/ipc.proto\<close> as the C++ code sees them. A proto3
  enum is open: a field may hold a number no constant names, which is the constructor
  \<open>_other\<close> of each enum (the \<^verbatim>\<open>default\<close> branches of the code
  read it). A \<^verbatim>\<open>oneof\<close> is an option of a datatype, a field of message type is
  an option, since its presence is observable (\<^verbatim>\<open>has_ticket()\<close>), and a scalar
  field is its value.

  The generated classes and the protobuf runtime are not part of the repository. What the code
  uses of them, turning a message into bytes and back, is the record \<open>codec\<close> of functions,
  which every operation that (de)serialises takes as an argument.
\<close>

section \<open>Enums\<close>

datatype MathOp = MATH_ADD | MATH_SUB | MATH_MUL | MATH_DIV | MathOp_other u32

datatype StrOp = STR_CONCAT | STR_FIND_START | StrOp_other u32

datatype Status =
    ST_SUCCESS
  | ST_ERROR_INVALID_INPUT
  | ST_ERROR_DIV_BY_ZERO
  | ST_ERROR_SUBSTR_NOT_FOUND
  | ST_ERROR_STRING_TOO_LONG
  | ST_ERROR_INTERNAL
  | ST_NOT_FINISHED
  | Status_other i32

datatype SubmitMode = BLOCKING | NONBLOCKING | SubmitMode_other u32

datatype GetWaitMode = NO_WAIT | WAIT_UP_TO | GetWaitMode_other u32

text \<open>\<^verbatim>\<open>static_cast<int>(status)\<close>: the number the \<^verbatim>\<open>.proto\<close> file gives.\<close>

fun status_num :: "Status \<Rightarrow> int" where
  "status_num ST_SUCCESS = 0"
| "status_num ST_ERROR_INVALID_INPUT = 1"
| "status_num ST_ERROR_DIV_BY_ZERO = 2"
| "status_num ST_ERROR_SUBSTR_NOT_FOUND = 3"
| "status_num ST_ERROR_STRING_TOO_LONG = 4"
| "status_num ST_ERROR_INTERNAL = 5"
| "status_num ST_NOT_FINISHED = 6"
| "status_num (Status_other n) = sint n"

section \<open>Messages\<close>

record MathArgs =
  math_op :: MathOp
  math_a :: i32
  math_b :: i32

record StrArgs =
  str_op :: StrOp
  str_s1 :: string
  str_s2 :: string

datatype Result_value = int_result i32 | position i32 | str_result string

type_synonym Result = "Result_value option" \<comment> \<open>\<^const>\<open>None\<close> is \<open>VALUE_NOT_SET\<close>\<close>

record Ticket =
  req_id :: u64

datatype Payload = math MathArgs | str StrArgs

record SubmitRequest =
  sreq_mode :: SubmitMode
  sreq_payload :: "Payload option"

record SubmitResponse =
  sresp_status :: Status
  sresp_ticket :: "Ticket option"
  sresp_result :: "Result option"

record GetRequest =
  greq_ticket :: "Ticket option"
  greq_wait_mode :: GetWaitMode
  greq_timeout_ms :: u32

record GetResponse =
  gresp_status :: Status
  gresp_result :: "Result option"

record FirstHandshake =
  client_name :: string
  exec_functions :: u32

datatype EnvReq = env_submit SubmitRequest | env_get GetRequest

type_synonym EnvelopeReq = "EnvReq option" \<comment> \<open>\<^const>\<open>None\<close> is \<open>REQ_NOT_SET\<close>\<close>

datatype EnvResp = resp_submit SubmitResponse | resp_get GetResponse

type_synonym EnvelopeResp = "EnvResp option"

section \<open>Default-constructed messages and accessors\<close>

definition SubmitResponse_default :: SubmitResponse where
  "SubmitResponse_default = \<lparr>sresp_status = ST_SUCCESS, sresp_ticket = None, sresp_result = None\<rparr>"

definition GetResponse_default :: GetResponse where
  "GetResponse_default = \<lparr>gresp_status = ST_SUCCESS, gresp_result = None\<rparr>"

definition SubmitRequest_default :: SubmitRequest where
  "SubmitRequest_default = \<lparr>sreq_mode = BLOCKING, sreq_payload = None\<rparr>"

definition GetRequest_default :: GetRequest where
  "GetRequest_default = \<lparr>greq_ticket = None, greq_wait_mode = NO_WAIT, greq_timeout_ms = 0\<rparr>"

text \<open>\<^verbatim>\<open>request.ticket().req_id()\<close>: an absent ticket reads as the default one.\<close>

definition greq_id :: "GetRequest \<Rightarrow> u64" where
  "greq_id g = (case greq_ticket g of None \<Rightarrow> 0 | Some t \<Rightarrow> req_id t)"

section \<open>The codec parameter\<close>

text \<open>
  \<^verbatim>\<open>SerializeToString\<close> and \<^verbatim>\<open>ParseFromString\<close> of the
  generated classes; \<^const>\<open>None\<close> is the result \<^verbatim>\<open>false\<close>.
\<close>

record codec =
  ser_handshake :: "FirstHandshake \<Rightarrow> string option"
  parse_handshake :: "string \<Rightarrow> FirstHandshake option"
  ser_req :: "EnvelopeReq \<Rightarrow> string option"
  parse_req :: "string \<Rightarrow> EnvelopeReq option"
  ser_resp :: "EnvelopeResp \<Rightarrow> string option"
  parse_resp :: "string \<Rightarrow> EnvelopeResp option"

section \<open>Facts\<close>

lemma status_num_eq_0: "status_num s = 0 \<longleftrightarrow> s = ST_SUCCESS \<or> s = Status_other 0"
  by (cases s) (auto simp: sint_i32_zero_iff)

end
