(* ===== verification/Error_Handling.thy ===== *)
theory Error_Handling
  imports Ipc_Messages
begin

text \<open>
  \<^verbatim>\<open>src/sources/common/error_handling.cpp\<close> and \<^verbatim>\<open>.h\<close>:
  the three handlers behind the template \<^verbatim>\<open>errorCheck\<close> and the macro
  \<^verbatim>\<open>RETURN_IF_ERROR\<close>. A handler returns its code together with what it wrote:
  the text on standard output and the log entries.
\<close>

section \<open>Output\<close>

datatype log_level = LInfo | LWarn | LError

record io_output =
  out_stdout :: string
  out_log :: "(log_level \<times> string) list"

definition no_output :: io_output where
  "no_output = \<lparr>out_stdout = [], out_log = []\<rparr>"

section \<open>Handlers\<close>

datatype ErrorType = ZMQ_SEND | IPC | DEFAULT

fun statusToStr :: "Status \<Rightarrow> string" where
  "statusToStr ST_SUCCESS = ''SUCCESS''"
| "statusToStr ST_ERROR_INVALID_INPUT = ''ERROR_INVALID_INPUT''"
| "statusToStr ST_ERROR_DIV_BY_ZERO = ''ERROR_DIV_BY_ZERO''"
| "statusToStr ST_ERROR_SUBSTR_NOT_FOUND = ''ERROR_SUBSTR_NOT_FOUND''"
| "statusToStr ST_ERROR_STRING_TOO_LONG = ''ERROR_STRING_TOO_LONG''"
| "statusToStr ST_ERROR_INTERNAL = ''ERROR_INTERNAL''"
| "statusToStr ST_NOT_FINISHED = ''NOT_FINISHED''"
| "statusToStr (Status_other n) = ''UNKNOWN''"

definition nl :: string where
  "nl = [CHR 0x0A]"

definition handleIpcError :: "Status \<Rightarrow> int \<times> io_output" where
  "handleIpcError status =
     (if status \<noteq> ST_SUCCESS then
        let errorName = statusToStr status in
        if status = ST_NOT_FINISHED then
          (EC_SUCCESS,
           \<lparr>out_stdout = ''IPC Info: ['' @ errorName @ '']'' @ nl,
            out_log = [(LInfo, ''IPC Error: ['' @ errorName @ '']'')]\<rparr>)
        else
          (status_num status,
           \<lparr>out_stdout = ''IPC Error: ['' @ errorName @ '']'' @ nl,
            out_log = [(LError, ''IPC Error: ['' @ errorName @ '']'')]\<rparr>)
      else (EC_SUCCESS, no_output))"

text \<open>
  The place of a check: \<^verbatim>\<open>__FILE__\<close>, \<^verbatim>\<open>__LINE__\<close>,
  \<^verbatim>\<open>__FUNCTION__\<close> and the message, \<^const>\<open>None\<close> for a null pointer.
\<close>

record check_site =
  site_file :: string
  site_line :: int
  site_func :: string
  site_msg :: "string option"

definition site_text :: "check_site \<Rightarrow> string" where
  "site_text c = '' | File: '' @ site_file c @ '' | Line: '' @ show_int (site_line c) @
     '' | Function: '' @ site_func c @ '' | Message: '' @
     (case site_msg c of None \<Rightarrow> ''NONE'' | Some m \<Rightarrow> m)"

text \<open>\<^verbatim>\<open>zmq::send_result_t\<close> is an optional number of bytes.\<close>

definition handleZmqSendError :: "nat option \<Rightarrow> check_site \<Rightarrow> int \<times> io_output" where
  "handleZmqSendError status c =
     (if status = None then
        (EC_FAILURE,
         no_output\<lparr>out_log :=
           [(LError, ''ZMQ Send Error: [Failed to send message]'' @ site_text c)]\<rparr>)
      else (EC_SUCCESS, no_output))"

definition handleRegularError :: "int \<Rightarrow> check_site \<Rightarrow> int \<times> io_output" where
  "handleRegularError status c =
     (if status \<noteq> EC_SUCCESS then
        (status,
         no_output\<lparr>out_log :=
           [(LError, ''Regular Error: ['' @ show_int status @ '']'' @ site_text c)]\<rparr>)
      else (EC_SUCCESS, no_output))"

text \<open>
  \<^verbatim>\<open>errorCheck\<close> is instantiated for three pairs of category and status type; the
  pair is the constructor here, so the dispatch of \<^verbatim>\<open>if constexpr\<close> is a case
  distinction.
\<close>

datatype checked_status = Zmq_status "nat option" | Ipc_status Status | Int_status int

fun error_type :: "checked_status \<Rightarrow> ErrorType" where
  "error_type (Zmq_status s) = ZMQ_SEND"
| "error_type (Ipc_status s) = IPC"
| "error_type (Int_status s) = DEFAULT"

fun errorCheck :: "checked_status \<Rightarrow> check_site \<Rightarrow> int \<times> io_output" where
  "errorCheck (Zmq_status s) c = handleZmqSendError s c"
| "errorCheck (Ipc_status s) c = handleIpcError s"
| "errorCheck (Int_status s) c = handleRegularError s c"

text \<open>
  \<^verbatim>\<open>RETURN_IF_ERROR\<close>: leave the enclosing function with the code, or go on.
  \<^const>\<open>Inl\<close> carries the code the function returns.
\<close>

definition RETURN_IF_ERROR :: "checked_status \<Rightarrow> check_site \<Rightarrow> int + unit" where
  "RETURN_IF_ERROR s c =
     (let errorMsg = fst (errorCheck s c) in
      if errorMsg \<noteq> EC_SUCCESS then Inl errorMsg else Inr ())"

definition PRINT_ERROR_NO_RET :: "checked_status \<Rightarrow> check_site \<Rightarrow> io_output" where
  "PRINT_ERROR_NO_RET s c = snd (errorCheck s c)"

section \<open>What the checks decide\<close>

text \<open>When a status counts as a failure of the call that returned it.\<close>

fun is_failure :: "checked_status \<Rightarrow> bool" where
  "is_failure (Zmq_status s) \<longleftrightarrow> s = None"
| "is_failure (Ipc_status s) \<longleftrightarrow> s \<noteq> ST_SUCCESS \<and> s \<noteq> ST_NOT_FINISHED"
| "is_failure (Int_status s) \<longleftrightarrow> s \<noteq> 0"

lemmas error_handling_defs =
  handleIpcError_def handleZmqSendError_def handleRegularError_def Let_def

lemma errorCheck_ok: "\<not> is_failure s \<Longrightarrow> fst (errorCheck s c) = EC_SUCCESS"
  by (cases s) (auto simp: error_handling_defs EC_SUCCESS_def)

lemma errorCheck_failed:
  "is_failure s \<Longrightarrow> s \<noteq> Ipc_status (Status_other 0) \<Longrightarrow> fst (errorCheck s c) \<noteq> EC_SUCCESS"
  by (cases s) (auto simp: error_handling_defs EC_SUCCESS_def EC_FAILURE_def status_num_eq_0)

lemma RETURN_IF_ERROR_int [simp]:
  "RETURN_IF_ERROR (Int_status r) c = (if r = EC_SUCCESS then Inr () else Inl r)"
  by (simp add: RETURN_IF_ERROR_def error_handling_defs)

lemma RETURN_IF_ERROR_zmq [simp]:
  "RETURN_IF_ERROR (Zmq_status r) c = (if r = None then Inl EC_FAILURE else Inr ())"
  by (simp add: RETURN_IF_ERROR_def error_handling_defs)

text \<open>Only the IPC category prints; the others write to the log alone.\<close>

lemma errorCheck_stdout:
  "out_stdout (snd (errorCheck s c)) \<noteq> [] \<longleftrightarrow>
     (\<exists>st. s = Ipc_status st \<and> st \<noteq> ST_SUCCESS)"
  by (cases s) (auto simp: error_handling_defs no_output_def)

section \<open>Properties\<close>

text \<open>
  C29: \<^verbatim>\<open>RETURN_IF_ERROR\<close> leaves the calling function exactly when the status is a
  failure of its category (no bytes sent, a non-zero code, an IPC status other than success and
  \<open>NOT_FINISHED\<close>), and never with the code of success; a check prints to standard output exactly
  for an IPC status other than success. The enum value 0 is the constant
  \<^const>\<open>ST_SUCCESS\<close>, so no other status has it.
\<close>

theorem return_if_error_exact:
  assumes "s \<noteq> Ipc_status (Status_other 0)"
  shows "(RETURN_IF_ERROR s c = Inr () \<longleftrightarrow> \<not> is_failure s) \<and>
    RETURN_IF_ERROR s c \<noteq> Inl EC_SUCCESS \<and>
    (out_stdout (PRINT_ERROR_NO_RET s c) = [] \<longleftrightarrow> \<not> (\<exists>st. s = Ipc_status st \<and> st \<noteq> ST_SUCCESS))"
  using errorCheck_ok errorCheck_failed [OF _ assms] errorCheck_stdout [of s c]
  by (auto simp: RETURN_IF_ERROR_def PRINT_ERROR_NO_RET_def Let_def)

theorem return_if_error_exact_witness:
  "RETURN_IF_ERROR (Ipc_status ST_NOT_FINISHED)
     \<lparr>site_file = ''a.cpp'', site_line = 3, site_func = ''f'', site_msg = None\<rparr> = Inr ()"
  using return_if_error_exact [of "Ipc_status ST_NOT_FINISHED"] by simp

end
