(* ===== verification/Algorithms.thy ===== *)
theory Algorithms
  imports Error_Handling
begin

text \<open>
  The computations of \<^verbatim>\<open>src/sources/server/algorithm_runner.cpp\<close>:
  \<^verbatim>\<open>runMath\<close>, \<^verbatim>\<open>runStr\<close>, the dispatch both the
  blocking path and the workers use, and the deadline arithmetic
  \<^verbatim>\<open>addMsToTimespec\<close>. The \<^verbatim>\<open>ipc::Result&\<close> out-parameter
  is an argument, and the status comes back with the updated result.
\<close>

section \<open>The operations\<close>

fun runMath :: "MathArgs \<Rightarrow> Result \<Rightarrow> (Status \<times> Result) cpp" where
  "runMath request response =
     (case math_op request of
        MATH_ADD \<Rightarrow> cpp_bind (add_i32 (math_a request) (math_b request))
          (\<lambda>v. Inr (ST_SUCCESS, Some (int_result v)))
      | MATH_SUB \<Rightarrow> cpp_bind (sub_i32 (math_a request) (math_b request))
          (\<lambda>v. Inr (ST_SUCCESS, Some (int_result v)))
      | MATH_MUL \<Rightarrow> cpp_bind (mul_i32 (math_a request) (math_b request))
          (\<lambda>v. Inr (ST_SUCCESS, Some (int_result v)))
      | MATH_DIV \<Rightarrow>
          if math_b request = 0 then Inr (ST_ERROR_DIV_BY_ZERO, response)
          else cpp_bind (div_i32 (math_a request) (math_b request))
            (\<lambda>v. Inr (ST_SUCCESS, Some (int_result v)))
      | MathOp_other _ \<Rightarrow> Inr (ST_ERROR_INVALID_INPUT, response))"

fun runStr :: "StrArgs \<Rightarrow> Result \<Rightarrow> Status \<times> Result" where
  "runStr request response =
     (if str_op request = STR_CONCAT then
        let r = str_s1 request @ str_s2 request in
        if length r > 32 then (ST_ERROR_STRING_TOO_LONG, response)
        else (ST_SUCCESS, Some (str_result r))
      else if str_op request = STR_FIND_START then
        (case std_find (str_s1 request) (str_s2 request) of
           None \<Rightarrow> (ST_ERROR_SUBSTR_NOT_FOUND, response)
         | Some pos \<Rightarrow> (ST_SUCCESS, Some (position (word_of_nat pos))))
      else (ST_ERROR_INVALID_INPUT, response))"

text \<open>
  The dispatch on the payload in \<^verbatim>\<open>workerLoop\<close>, on a fresh
  \<^verbatim>\<open>ipc::Result\<close>.
\<close>

definition compute :: "SubmitRequest \<Rightarrow> (Status \<times> Result) cpp" where
  "compute req =
     (case sreq_payload req of
        Some (math m) \<Rightarrow> runMath m None
      | Some (str s) \<Rightarrow> Inr (runStr s None)
      | None \<Rightarrow> Inr (ST_ERROR_INVALID_INPUT, None))"

section \<open>The deadline\<close>

record timespec =
  tv_sec :: int
  tv_nsec :: int

text \<open>
  \<^verbatim>\<open>std::chrono\<close> adds in nanoseconds counted in 64 bits, so each
  intermediate count is checked against their range; \<^verbatim>\<open>duration_cast\<close> and
  \<^verbatim>\<open>%\<close> truncate towards zero.
\<close>

definition in_i64 :: "int \<Rightarrow> bool" where
  "in_i64 x \<longleftrightarrow> - (2 ^ 63) \<le> x \<and> x < 2 ^ 63"

definition addMsToTimespec :: "timespec \<Rightarrow> u32 \<Rightarrow> timespec cpp" where
  "addMsToTimespec ts ms =
     (let secs = tv_sec ts * 1000000000;
          current = secs + tv_nsec ts;
          total = current + uint ms * 1000000
      in if in_i64 secs \<and> in_i64 current \<and> in_i64 total
         then Inr \<lparr>tv_sec = total sdiv 1000000000, tv_nsec = total smod 1000000000\<rparr>
         else Inl Signed_Overflow)"

text \<open>What \<^verbatim>\<open>pthread_cond_timedwait\<close> accepts as a deadline.\<close>

definition timespec_normal :: "timespec \<Rightarrow> bool" where
  "timespec_normal ts \<longleftrightarrow> 0 \<le> tv_nsec ts \<and> tv_nsec ts < 1000000000"

definition timespec_ns :: "timespec \<Rightarrow> int" where
  "timespec_ns ts = tv_sec ts * 1000000000 + tv_nsec ts"

section \<open>Correctness of the arithmetic\<close>

text \<open>The mathematical value of an operation, where it has one.\<close>

fun math_value :: "MathOp \<Rightarrow> int \<Rightarrow> int \<Rightarrow> int option" where
  "math_value MATH_ADD x y = Some (x + y)"
| "math_value MATH_SUB x y = Some (x - y)"
| "math_value MATH_MUL x y = Some (x * y)"
| "math_value MATH_DIV x y = (if y = 0 then None else Some (x sdiv y))"
| "math_value (MathOp_other n) x y = None"

lemmas i32_ops_defs = add_i32_def sub_i32_def mul_i32_def div_i32_def

lemma i32_wi [simp]:
  "word_of_int (sint (a :: i32) + sint b) = a + b"
  "word_of_int (sint (a :: i32) - sint b) = a - b"
  "word_of_int (sint (a :: i32) * sint b) = a * b"
  by (simp_all add: wi_hom_syms)

lemma runMath_eq_value:
  assumes "math_value (math_op m) (sint (math_a m)) (sint (math_b m)) = Some v"
  shows "runMath m r =
    (if in_i32 v then Inr (ST_SUCCESS, Some (int_result (word_of_int v))) else Inl Signed_Overflow)"
  using assms by (cases "math_op m") (auto simp: i32_ops_defs split: if_splits)

lemma runMath_no_value:
  assumes "math_value (math_op m) (sint (math_a m)) (sint (math_b m)) = None"
  shows "runMath m r =
    Inr (if math_op m = MATH_DIV then ST_ERROR_DIV_BY_ZERO else ST_ERROR_INVALID_INPUT, r)"
  using assms by (cases "math_op m") (auto simp: sint_i32_zero_iff split: if_splits)

lemma runStr_concat:
  assumes "str_op m = STR_CONCAT"
  shows "runStr m r =
    (if length (str_s1 m) + length (str_s2 m) \<le> 32
     then (ST_SUCCESS, Some (str_result (str_s1 m @ str_s2 m)))
     else (ST_ERROR_STRING_TOO_LONG, r))"
  using assms by (simp add: Let_def)

text \<open>No operation leaves a partial result: an error keeps the result it was given.\<close>

lemma runMath_error_keeps: "runMath m r = Inr (st, r') \<Longrightarrow> st \<noteq> ST_SUCCESS \<Longrightarrow> r' = r"
  by (auto simp: cpp_simps split: MathOp.splits if_splits)

lemma runStr_error_keeps: "runStr m r = (st, r') \<Longrightarrow> st \<noteq> ST_SUCCESS \<Longrightarrow> r' = r"
  by (auto simp: Let_def split: if_splits option.splits)

text \<open>The outcome of a computation does not look like an unfinished job.\<close>

lemma compute_finished: "compute req = Inr (st, r) \<Longrightarrow> st \<noteq> ST_NOT_FINISHED"
  by (auto simp: compute_def cpp_simps Let_def
      split: option.splits Payload.splits MathOp.splits if_splits)

lemma compute_result_iff:
  "compute req = Inr (st, r) \<Longrightarrow> r \<noteq> None \<longleftrightarrow> st = ST_SUCCESS"
  by (auto simp: compute_def cpp_simps Let_def
      split: option.splits Payload.splits MathOp.splits if_splits)

lemma addMsToTimespec_exact:
  assumes "timespec_normal ts" and "0 \<le> tv_sec ts" and "tv_sec ts \<le> 9000000000"
  shows "\<exists>ts'. addMsToTimespec ts ms = Inr ts' \<and> timespec_normal ts' \<and>
    timespec_ns ts' = timespec_ns ts + uint ms * 1000000"
proof -
  define total where "total = tv_sec ts * 1000000000 + tv_nsec ts + uint ms * 1000000"
  have ms: "0 \<le> uint ms" "uint ms < 2 ^ 32"
    using uint_lt2p [of ms] by simp_all
  have pos: "0 \<le> total"
    using assms ms by (simp add: total_def timespec_normal_def)
  have "total sdiv 1000000000 = total div 1000000000"
    using pos by (cases "total = 0") (simp_all add: signed_divide_int_def)
  moreover have "total smod 1000000000 = total mod 1000000000"
    using pos by (cases "total = 0") (simp_all add: signed_modulo_int_def signed_divide_int_def minus_div_mult_eq_mod)
  moreover have "in_i64 (tv_sec ts * 1000000000)" "in_i64 (tv_sec ts * 1000000000 + tv_nsec ts)"
    using assms by (auto simp: in_i64_def timespec_normal_def)
  moreover have "in_i64 total"
  proof -
    have "total < 2 ^ 63" using assms ms by (simp add: total_def timespec_normal_def)
    then show ?thesis using pos by (auto simp: in_i64_def)
  qed
  ultimately show ?thesis
    by (simp add: addMsToTimespec_def Let_def total_def timespec_normal_def timespec_ns_def)
qed

lemma compute_not_blocked: "compute req \<noteq> Inl Blocked"
  by (auto simp: compute_def cpp_bind_eq_Inl i32_ops_defs
      split: option.splits Payload.splits MathOp.splits if_splits)

lemma sdiv_remainder:
  fixes x y :: int
  assumes "y \<noteq> 0"
  shows "\<bar>x - (x sdiv y) * y\<bar> < \<bar>y\<bar> \<and> (x - (x sdiv y) * y = 0 \<or> sgn (x - (x sdiv y) * y) = sgn x)"
proof -
  have "(x sdiv y) * y = sgn x * (\<bar>x\<bar> div \<bar>y\<bar> * \<bar>y\<bar>)"
    using assms by (simp add: signed_divide_int_def sgn_if)
  then have "x - (x sdiv y) * y = sgn x * (\<bar>x\<bar> mod \<bar>y\<bar>)"
    by (simp add: minus_div_mult_eq_mod [symmetric] right_diff_distrib sgn_mult_abs)
  moreover have "0 \<le> \<bar>x\<bar> mod \<bar>y\<bar>" "\<bar>x\<bar> mod \<bar>y\<bar> < \<bar>y\<bar>" using assms by simp_all
  ultimately obtain k where "x - (x sdiv y) * y = sgn x * k" "0 \<le> k" "k < \<bar>y\<bar>" by blast
  then show ?thesis by (cases "x = 0") (auto simp: abs_mult sgn_mult sgn_if)
qed

lemma position_fits: "n < 2 ^ 31 \<Longrightarrow> sint (word_of_nat n :: i32) = int n"
  using sint_word_of_int_i32 [of "int n"] by (simp add: in_i32_def)

section \<open>Properties\<close>

text \<open>
  C17: \<^verbatim>\<open>runMath\<close> on every branch. Where the operation has a mathematical value
  that fits 32 bits, it answers success with exactly that value; a value that does not fit is undefined
  behaviour; a zero divisor and an unknown operation are answered with their own error and leave the
  result untouched.
\<close>

theorem runMath_correct:
  "runMath m r =
     (case math_value (math_op m) (sint (math_a m)) (sint (math_b m)) of
        Some v \<Rightarrow>
          if in_i32 v then Inr (ST_SUCCESS, Some (int_result (word_of_int v)))
          else Inl Signed_Overflow
      | None \<Rightarrow>
          Inr (if math_op m = MATH_DIV then ST_ERROR_DIV_BY_ZERO else ST_ERROR_INVALID_INPUT, r))"
proof (cases "math_value (math_op m) (sint (math_a m)) (sint (math_b m))")
  case None
  then show ?thesis using runMath_no_value [OF None] by simp
next
  case (Some v)
  then show ?thesis using runMath_eq_value [OF Some] by simp
qed

text \<open>
  C25: a successful division gives the quotient truncated towards zero: the remainder is smaller than
  the divisor and has the sign of the dividend. A division with a non-zero divisor fails to be defined
  for one pair of operands only, the smallest integer by minus one.
\<close>

theorem division_truncates:
  assumes "math_op m = MATH_DIV" and "math_b m \<noteq> 0"
  shows "(\<exists>q. runMath m r = Inr (ST_SUCCESS, Some (int_result q)) \<and>
      (let rem = sint (math_a m) - sint q * sint (math_b m) in
        \<bar>rem\<bar> < \<bar>sint (math_b m)\<bar> \<and> (rem = 0 \<or> sgn rem = sgn (sint (math_a m))))) \<or>
    (sint (math_a m) = - (2 ^ 31) \<and> sint (math_b m) = - 1 \<and> runMath m r = Inl Signed_Overflow)"
proof -
  let ?a = "sint (math_a m)" and ?b = "sint (math_b m)"
  have b: "?b \<noteq> 0" using assms(2) by (simp add: sint_i32_zero_iff)
  have run: "runMath m r = (if in_i32 (?a sdiv ?b)
      then Inr (ST_SUCCESS, Some (int_result (word_of_int (?a sdiv ?b)))) else Inl Signed_Overflow)"
    using runMath_eq_value [of m "?a sdiv ?b" r] assms b by simp
  show ?thesis
  proof (cases "in_i32 (?a sdiv ?b)")
    case True
    then show ?thesis
      using run sdiv_remainder [OF b, of ?a] by (simp add: sint_word_of_int_i32 Let_def)
  next
    case False
    then have "?a = - (2 ^ 31) \<and> ?b = - 1" using sdiv_in_i32_iff [of ?a ?b] b by simp
    moreover have "runMath m r = Inl Signed_Overflow" using run False by (simp only: if_False)
    ultimately show ?thesis by blast
  qed
qed

theorem division_truncates_witness:
  "runMath \<lparr>math_op = MATH_DIV, math_a = - 7, math_b = 2\<rparr> None =
     Inr (ST_SUCCESS, Some (int_result (- 3))) \<and>
   (\<exists>q. runMath \<lparr>math_op = MATH_DIV, math_a = - 7, math_b = 2\<rparr> None =
     Inr (ST_SUCCESS, Some (int_result q)))"
  using division_truncates [of "\<lparr>math_op = MATH_DIV, math_a = - 7, math_b = 2\<rparr>" None]
  by (simp add: div_i32_def in_i32_def signed_divide_int_def)

text \<open>
  C18: \<^verbatim>\<open>runStr\<close> concatenates up to 32 bytes and refuses more, and its search
  answers the first position at which the second string occurs in the first, or that it does not occur
  at all; the position is the number meant as long as the text is shorter than 2 GiB.
\<close>

theorem runStr_correct:
  "runStr \<lparr>str_op = STR_CONCAT, str_s1 = s, str_s2 = t\<rparr> r =
     (if length s + length t \<le> 32 then (ST_SUCCESS, Some (str_result (s @ t)))
      else (ST_ERROR_STRING_TOO_LONG, r)) \<and>
   (\<not> sublist t s \<longrightarrow>
      runStr \<lparr>str_op = STR_FIND_START, str_s1 = s, str_s2 = t\<rparr> r = (ST_ERROR_SUBSTR_NOT_FOUND, r)) \<and>
   (sublist t s \<longrightarrow> length s < 2 ^ 31 \<longrightarrow>
      (\<exists>pos. runStr \<lparr>str_op = STR_FIND_START, str_s1 = s, str_s2 = t\<rparr> r =
          (ST_SUCCESS, Some (position pos)) \<and>
        prefix t (drop (nat (sint pos)) s) \<and> 0 \<le> sint pos \<and>
        (\<forall>j < nat (sint pos). \<not> prefix t (drop j s))))"
proof (intro conjI impI)
  show "runStr \<lparr>str_op = STR_CONCAT, str_s1 = s, str_s2 = t\<rparr> r =
     (if length s + length t \<le> 32 then (ST_SUCCESS, Some (str_result (s @ t)))
      else (ST_ERROR_STRING_TOO_LONG, r))"
    by (simp add: Let_def)
next
  assume "\<not> sublist t s"
  then have "std_find s t = None" by (simp add: std_find_eq_None)
  then show "runStr \<lparr>str_op = STR_FIND_START, str_s1 = s, str_s2 = t\<rparr> r =
      (ST_ERROR_SUBSTR_NOT_FOUND, r)"
    by simp
next
  assume "sublist t s" and len: "length s < 2 ^ 31"
  then obtain i where i: "std_find s t = Some i" by (metis std_find_eq_None not_None_eq)
  then have "i < 2 ^ 31" using len std_find_bound by fastforce
  then have "sint (word_of_nat i :: i32) = int i" by (rule position_fits)
  then show "\<exists>pos. runStr \<lparr>str_op = STR_FIND_START, str_s1 = s, str_s2 = t\<rparr> r =
          (ST_SUCCESS, Some (position pos)) \<and>
        prefix t (drop (nat (sint pos)) s) \<and> 0 \<le> sint pos \<and>
        (\<forall>j < nat (sint pos). \<not> prefix t (drop j s))"
    using i std_find_eq_Some [of s t i] by (intro exI [of _ "word_of_nat i"]) simp
qed

theorem runStr_correct_witness:
  "\<not> sublist ''xyz'' ''abracadabra'' \<and>
   runStr \<lparr>str_op = STR_FIND_START, str_s1 = ''abracadabra'', str_s2 = ''xyz''\<rparr> None =
     (ST_ERROR_SUBSTR_NOT_FOUND, None) \<and>
   (\<exists>pos. runStr \<lparr>str_op = STR_FIND_START, str_s1 = ''abracadabra'', str_s2 = ''bra''\<rparr> None =
     (ST_SUCCESS, Some (position pos)))"
proof -
  have "\<not> sublist ''xyz'' ''abracadabra''" "sublist ''bra'' ''abracadabra''"
    by (simp_all add: sublist_Cons_right)
  then show ?thesis
    using runStr_correct [of "''abracadabra''" "''xyz''" None]
      runStr_correct [of "''abracadabra''" "''bra''" None] by auto
qed

text \<open>
  C26: the deadline of a timed wait is exact: on a normalised clock reading up to the year 2255, adding
  any number of milliseconds yields a normalised time that lies exactly that much later, with no
  overflow on the way.
\<close>

theorem deadline_exact:
  assumes "timespec_normal ts" and "0 \<le> tv_sec ts" and "tv_sec ts \<le> 9000000000"
  shows "\<exists>ts'. addMsToTimespec ts ms = Inr ts' \<and> timespec_normal ts' \<and>
    timespec_ns ts' = timespec_ns ts + uint ms * 1000000"
  using assms by (rule addMsToTimespec_exact)

theorem deadline_exact_witness:
  "\<exists>ts'. addMsToTimespec \<lparr>tv_sec = 10, tv_nsec = 999000000\<rparr> 1500 = Inr ts' \<and> timespec_normal ts' \<and>
     timespec_ns ts' = 12499000000"
  using deadline_exact [of "\<lparr>tv_sec = 10, tv_nsec = 999000000\<rparr>" 1500]
  by (simp add: timespec_normal_def timespec_ns_def)

end
