(* ===== verification/Ticket_Service.thy ===== *)
theory Ticket_Service
  imports Algorithms
begin

text \<open>
  What the job runner promises its caller, as a specification that knows neither queue, nor workers,
  nor shared jobs: a table from tickets to requests, each pending or ready. The locale
  \<open>ticket_service\<close> states the contract and derives from it what a caller sees over a whole
  sequence of calls and worker events; the job runner of \<open>Algo_Runner\<close> is an interpretation.
\<close>

section \<open>The specification\<close>

datatype ticket_state = Pending (request_of: SubmitRequest) | Ready (request_of: SubmitRequest)

type_synonym tickets = "u64 \<rightharpoonup> ticket_state"

text \<open>Work done in the background: pending requests with a defined outcome may become ready.\<close>

definition progress :: "tickets \<Rightarrow> tickets \<Rightarrow> bool" where
  "progress t t' \<longleftrightarrow> (\<forall>jid. t' jid = t jid \<or>
     (\<exists>req. t jid = Some (Pending req) \<and> t' jid = Some (Ready req) \<and> cpp_defined (compute req)))"

text \<open>Which request each ticket stands for, finished or not.\<close>

definition requests_of :: "tickets \<Rightarrow> (u64 \<rightharpoonup> SubmitRequest)" where
  "requests_of t jid = map_option request_of (t jid)"

text \<open>The answer to a collection, and the table after it.\<close>

definition spec_get :: "u64 \<Rightarrow> tickets \<Rightarrow> GetResponse \<times> tickets" where
  "spec_get jid t =
     (case t jid of
        None \<Rightarrow> (\<lparr>gresp_status = ST_ERROR_INVALID_INPUT, gresp_result = None\<rparr>, t)
      | Some (Pending req) \<Rightarrow> (\<lparr>gresp_status = ST_NOT_FINISHED, gresp_result = None\<rparr>, t)
      | Some (Ready req) \<Rightarrow>
          (case compute req of
             Inr (st, res) \<Rightarrow> (\<lparr>gresp_status = st, gresp_result = Some res\<rparr>, t(jid := None))
           | Inl h \<Rightarrow> (GetResponse_default, t)))"

section \<open>Sequences of calls\<close>

text \<open>
  The events of a caller and of the background work, with the answers they get. The operations are
  arguments: \<open>submit\<close> with its clock reading, \<open>work\<close> and \<open>fetch\<close>.
\<close>

datatype ('c, 'e, 'g) svc_event = Ev_submit 'c SubmitRequest | Ev_work 'e | Ev_get 'g

datatype svc_answer = A_ticket u64 | A_none | A_resp GetResponse

fun svc_step ::
  "('c \<Rightarrow> SubmitRequest \<Rightarrow> 's \<Rightarrow> u64 \<times> 's) \<Rightarrow> ('e \<Rightarrow> 's \<Rightarrow> 's cpp) \<Rightarrow>
   ('g \<Rightarrow> 's \<Rightarrow> (GetResponse \<times> 's) cpp) \<Rightarrow> ('c, 'e, 'g) svc_event \<Rightarrow> 's \<Rightarrow> (svc_answer \<times> 's) cpp" where
  "svc_step submit work fetch (Ev_submit c req) s =
     (let (jid, s') = submit c req s in Inr (A_ticket jid, s'))"
| "svc_step submit work fetch (Ev_work e) s = cpp_bind (work e s) (\<lambda>s'. Inr (A_none, s'))"
| "svc_step submit work fetch (Ev_get g) s =
     cpp_bind (fetch g s) (\<lambda>(resp, s'). Inr (A_resp resp, s'))"

fun svc_exec ::
  "('c \<Rightarrow> SubmitRequest \<Rightarrow> 's \<Rightarrow> u64 \<times> 's) \<Rightarrow> ('e \<Rightarrow> 's \<Rightarrow> 's cpp) \<Rightarrow>
   ('g \<Rightarrow> 's \<Rightarrow> (GetResponse \<times> 's) cpp) \<Rightarrow> ('c, 'e, 'g) svc_event list \<Rightarrow> 's
   \<Rightarrow> (svc_answer list \<times> 's) cpp" where
  "svc_exec submit work fetch [] s = Inr ([], s)"
| "svc_exec submit work fetch (e # es) s =
     cpp_bind (svc_step submit work fetch e s) (\<lambda>(ans, s').
     cpp_bind (svc_exec submit work fetch es s') (\<lambda>(anss, s''). Inr (ans # anss, s'')))"

text \<open>
  What a caller can know from its own calls: which ticket stands for which request. A ticket is
  forgotten once an answer with a result has been given for it.
\<close>

fun note_event :: "('g \<Rightarrow> u64) \<Rightarrow> ('c, 'e, 'g) svc_event \<times> svc_answer \<Rightarrow>
    (u64 \<rightharpoonup> SubmitRequest) \<Rightarrow> (u64 \<rightharpoonup> SubmitRequest)" where
  "note_event key (Ev_submit c req, A_ticket jid) m = m(jid \<mapsto> req)"
| "note_event key (Ev_get g, A_resp resp) m =
     (if gresp_result resp \<noteq> None then m(key g := None) else m)"
| "note_event key _ m = m"

definition outstanding :: "('g \<Rightarrow> u64) \<Rightarrow> ('c, 'e, 'g) svc_event list \<Rightarrow> svc_answer list \<Rightarrow>
    (u64 \<rightharpoonup> SubmitRequest)" where
  "outstanding key es anss = fold (note_event key) (zip es anss) Map.empty"

section \<open>Facts about the specification\<close>

lemma progress_refl [simp]: "progress t t"
  by (simp add: progress_def)

lemma progress_trans: "progress t u \<Longrightarrow> progress u v \<Longrightarrow> progress t v"
  unfolding progress_def by (metis option.inject ticket_state.distinct(1))

lemma progress_request: "progress t t' \<Longrightarrow> requests_of t' = requests_of t"
  unfolding progress_def requests_of_def fun_eq_iff by (metis option.simps(9) ticket_state.sel)

definition ready_defined :: "tickets \<Rightarrow> bool" where
  "ready_defined t \<longleftrightarrow> (\<forall>jid req. t jid = Some (Ready req) \<longrightarrow> cpp_defined (compute req))"

lemma progress_ready_defined: "ready_defined t \<Longrightarrow> progress t t' \<Longrightarrow> ready_defined t'"
  unfolding ready_defined_def progress_def by (metis option.inject ticket_state.inject(2))

lemma spec_get_ready_defined: "ready_defined t \<Longrightarrow> ready_defined (snd (spec_get jid t))"
  by (auto simp: ready_defined_def spec_get_def split: option.splits ticket_state.splits sum.splits)

lemma spec_get_cases:
  assumes "ready_defined t" and "spec_get jid t = (resp, t')"
  obtains (unknown) "t jid = None" "t' = t"
      "resp = \<lparr>gresp_status = ST_ERROR_INVALID_INPUT, gresp_result = None\<rparr>"
  | (pending) req where "t jid = Some (Pending req)" "t' = t"
      "resp = \<lparr>gresp_status = ST_NOT_FINISHED, gresp_result = None\<rparr>"
  | (ready) req st res where "t jid = Some (Ready req)" "compute req = Inr (st, res)"
      "t' = t(jid := None)" "resp = \<lparr>gresp_status = st, gresp_result = Some res\<rparr>"
proof (cases "t jid")
  case None
  with assms(2) show ?thesis by (intro unknown) (simp_all add: spec_get_def)
next
  case (Some ts)
  show ?thesis
  proof (cases ts)
    case (Pending req)
    with Some assms(2) show ?thesis by (intro pending) (simp_all add: spec_get_def)
  next
    case (Ready req)
    with Some assms(1) obtain st res where "compute req = Inr (st, res)"
      unfolding ready_defined_def cpp_defined_def by (metis surj_pair)
    with Ready Some assms(2) show ?thesis by (intro ready) (auto simp: spec_get_def)
  qed
qed

text \<open>The answer of the specification, in terms of the request a ticket stands for.\<close>

lemma spec_get_answer:
  assumes "ready_defined t" and "spec_get jid t = (resp, t')"
  shows "case requests_of t jid of
      None \<Rightarrow> resp = \<lparr>gresp_status = ST_ERROR_INVALID_INPUT, gresp_result = None\<rparr>
    | Some req \<Rightarrow> resp = \<lparr>gresp_status = ST_NOT_FINISHED, gresp_result = None\<rparr> \<or>
        (\<exists>st res. compute req = Inr (st, res) \<and> resp = \<lparr>gresp_status = st, gresp_result = Some res\<rparr>)"
    and "requests_of t' = (if gresp_result resp \<noteq> None then (requests_of t)(jid := None) else requests_of t)"
  by (rule spec_get_cases [OF assms]; simp add: requests_of_def fun_eq_iff)+

section \<open>The contract\<close>

locale ticket_service =
  fixes submit :: "'c \<Rightarrow> SubmitRequest \<Rightarrow> 's \<Rightarrow> u64 \<times> 's"
    and work :: "'e \<Rightarrow> 's \<Rightarrow> 's cpp"
    and fetch :: "'g \<Rightarrow> 's \<Rightarrow> (GetResponse \<times> 's) cpp"
    and key :: "'g \<Rightarrow> u64"
    and valid :: "'g \<Rightarrow> bool"
    and invar :: "'s \<Rightarrow> bool"
    and tickets :: "'s \<Rightarrow> tickets"
  assumes submit_law: "invar s \<Longrightarrow> submit c req s = (jid, s') \<Longrightarrow>
      invar s' \<and> tickets s' = (tickets s)(jid \<mapsto> Pending req)"
    and work_law: "invar s \<Longrightarrow> work e s = Inr s' \<Longrightarrow> invar s' \<and> progress (tickets s) (tickets s')"
    and fetch_law: "invar s \<Longrightarrow> valid g \<Longrightarrow> fetch g s = Inr (resp, s') \<Longrightarrow>
      invar s' \<and> (\<exists>t. progress (tickets s) t \<and> spec_get (key g) t = (resp, tickets s'))"
    and ready_law: "invar s \<Longrightarrow> ready_defined (tickets s)"
begin

abbreviation known :: "'s \<Rightarrow> (u64 \<rightharpoonup> SubmitRequest)" where
  "known s \<equiv> requests_of (tickets s)"

abbreviation valid_event :: "('c, 'e, 'g) svc_event \<Rightarrow> bool" where
  "valid_event e \<equiv> (\<forall>g. e = Ev_get g \<longrightarrow> valid g)"

lemma step_invar:
  assumes "invar s" and "valid_event e" and "svc_step submit work fetch e s = Inr (ans, s')"
  shows "invar s'"
proof (cases e)
  case (Ev_submit c req)
  with assms show ?thesis using submit_law by (auto split: prod.splits)
next
  case (Ev_work w)
  with assms show ?thesis using work_law by (auto simp: cpp_bind_eq_Inr)
next
  case (Ev_get g)
  with assms show ?thesis using fetch_law by (fastforce simp: cpp_bind_eq_Inr)
qed

lemma fetch_answer:
  assumes "invar s" and "valid g" and "fetch g s = Inr (resp, s')"
  shows "case known s (key g) of
      None \<Rightarrow> resp = \<lparr>gresp_status = ST_ERROR_INVALID_INPUT, gresp_result = None\<rparr>
    | Some req \<Rightarrow> resp = \<lparr>gresp_status = ST_NOT_FINISHED, gresp_result = None\<rparr> \<or>
        (\<exists>st res. compute req = Inr (st, res) \<and> resp = \<lparr>gresp_status = st, gresp_result = Some res\<rparr>)"
    and "known s' = (if gresp_result resp \<noteq> None then (known s)(key g := None) else known s)"
proof -
  from fetch_law [OF assms] obtain t where t: "progress (tickets s) t"
      "spec_get (key g) t = (resp, tickets s')" by blast
  have rd: "ready_defined t" using ready_law [OF assms(1)] t(1) by (rule progress_ready_defined)
  have same: "requests_of t = known s" using t(1) by (rule progress_request)
  show "case known s (key g) of
      None \<Rightarrow> resp = \<lparr>gresp_status = ST_ERROR_INVALID_INPUT, gresp_result = None\<rparr>
    | Some req \<Rightarrow> resp = \<lparr>gresp_status = ST_NOT_FINISHED, gresp_result = None\<rparr> \<or>
        (\<exists>st res. compute req = Inr (st, res) \<and> resp = \<lparr>gresp_status = st, gresp_result = Some res\<rparr>)"
    using spec_get_answer(1) [OF rd t(2)] by (simp only: same)
  show "known s' = (if gresp_result resp \<noteq> None then (known s)(key g := None) else known s)"
    using spec_get_answer(2) [OF rd t(2)] by (simp only: same)
qed

lemma step_known:
  assumes "invar s" and "valid_event e" and "svc_step submit work fetch e s = Inr (ans, s')"
  shows "known s' = note_event key (e, ans) (known s)"
proof (cases e)
  case (Ev_submit c req)
  with assms obtain jid where "submit c req s = (jid, s')" "ans = A_ticket jid"
    by (auto split: prod.splits)
  with Ev_submit submit_law [OF assms(1)] show ?thesis by (auto simp: requests_of_def fun_eq_iff)
next
  case (Ev_work w)
  with assms obtain "progress (tickets s) (tickets s')" "ans = A_none"
    using work_law [OF assms(1)] by (auto simp: cpp_bind_eq_Inr)
  with Ev_work show ?thesis by (simp add: progress_request)
next
  case (Ev_get g)
  with assms obtain resp where "fetch g s = Inr (resp, s')" "ans = A_resp resp"
    by (auto simp: cpp_bind_eq_Inr)
  with Ev_get assms(1,2) show ?thesis using fetch_answer(2) [of s g resp s'] by simp
qed

lemma exec_known:
  assumes "invar s" and "\<forall>e \<in> set es. valid_event e"
    and "svc_exec submit work fetch es s = Inr (anss, s')"
  shows "invar s' \<and> length anss = length es \<and> known s' = fold (note_event key) (zip es anss) (known s)"
  using assms
proof (induction es arbitrary: s anss)
  case Nil
  then show ?case by simp
next
  case (Cons e es)
  from Cons.prems(3) obtain ans s1 anss1 where st: "svc_step submit work fetch e s = Inr (ans, s1)"
      "svc_exec submit work fetch es s1 = Inr (anss1, s')" "anss = ans # anss1"
    by (auto simp: cpp_bind_eq_Inr)
  have ve: "valid_event e" using Cons.prems(2) by simp
  have "invar s1" by (rule step_invar [OF Cons.prems(1) ve st(1)])
  moreover have "known s1 = note_event key (e, ans) (known s)"
    by (rule step_known [OF Cons.prems(1) ve st(1)])
  ultimately show ?case using Cons.IH [of s1 anss1] Cons.prems(2) st(2,3) by simp
qed

text \<open>
  The caller's view is exact: from an empty service, after any sequence of calls and work, the next
  answer for a ticket is determined by the request the ticket stands for.
\<close>

lemma answer_after_trace:
  assumes "invar s" and "tickets s = Map.empty" and "\<forall>e \<in> set es. valid_event e" and "valid g"
    and "svc_exec submit work fetch es s = Inr (anss, s1)" and "fetch g s1 = Inr (resp, s2)"
  shows "case outstanding key es anss (key g) of
      None \<Rightarrow> resp = \<lparr>gresp_status = ST_ERROR_INVALID_INPUT, gresp_result = None\<rparr>
    | Some req \<Rightarrow> resp = \<lparr>gresp_status = ST_NOT_FINISHED, gresp_result = None\<rparr> \<or>
        (\<exists>st res. compute req = Inr (st, res) \<and> resp = \<lparr>gresp_status = st, gresp_result = Some res\<rparr>)"
proof -
  from exec_known [OF assms(1,3,5)] have s1: "invar s1"
      "known s1 = fold (note_event key) (zip es anss) (known s)" by simp_all
  have "known s = Map.empty" by (simp add: assms(2) requests_of_def fun_eq_iff)
  with s1(2) have "known s1 = outstanding key es anss" by (simp add: outstanding_def)
  with fetch_answer(1) [OF s1(1) assms(4,6)] show ?thesis by simp
qed

end

end
