(* ===== verification/Algo_Runner.thy ===== *)
theory Algo_Runner
  imports Ticket_Service
begin

unbundle bit_operations_syntax

text \<open>
  The job runner of \<^verbatim>\<open>src/sources/server/algorithm_runner.cpp\<close>, seen at the
  granularity of its critical sections: the job table, the queue, the jobs themselves in a store of
  shared objects (the table, the queue and a worker alias the same job), and what each worker holds.
  The main thread is the only caller of \<^verbatim>\<open>run\<close> and \<^verbatim>\<open>get\<close>; the
  workers act between and during its calls, as events of a schedule. The theory
  \<open>Worker_Pool\<close> splits the same workers into their single instructions.
\<close>

section \<open>State\<close>

type_synonym addr = nat

record Job =
  job_id :: u64
  job_req :: SubmitRequest
  job_status :: Status
  job_result :: Result
  job_done :: bool

definition Job_default :: Job where
  "Job_default = \<lparr>job_id = 0, job_req = SubmitRequest_default, job_status = ST_NOT_FINISHED,
     job_result = None, job_done = False\<rparr>"

text \<open>
  \<open>heap\<close> holds every job ever allocated, \<open>next_addr\<close> is the next unused address.
  \<open>workers\<close> has one entry per live worker thread: the job in its local variable
  \<^verbatim>\<open>job\<close>, if any.
\<close>

record AlgoRunnerIpml =
  jobs :: "u64 \<rightharpoonup> addr"
  jobQueue :: "addr list"
  workers :: "addr option list"
  maxThreads :: int
  running :: bool
  heap :: "addr \<rightharpoonup> Job"
  next_addr :: addr

definition AlgoRunnerIpml_new :: "int \<Rightarrow> AlgoRunnerIpml" where
  "AlgoRunnerIpml_new threads =
     \<lparr>jobs = Map.empty, jobQueue = [], workers = [], maxThreads = threads, running = False,
      heap = Map.empty, next_addr = 0\<rparr>"

section \<open>Workers\<close>

text \<open>
  The two critical sections of one pass through \<^verbatim>\<open>workerLoop\<close>. In the first, an idle
  worker moves the front of the queue into its local variable.
\<close>

definition pop_job :: "nat \<Rightarrow> AlgoRunnerIpml \<Rightarrow> AlgoRunnerIpml" where
  "pop_job i r =
     (if i < length (workers r) \<and> workers r ! i = None then
        (case jobQueue r of
           [] \<Rightarrow> r
         | a # q \<Rightarrow> r\<lparr>jobQueue := q, workers := (workers r)[i := Some a]\<rparr>)
      else r)"

text \<open>
  A worker starts a pass only while \<^verbatim>\<open>running\<close> is set, and waits for a job. A worker
  that was past the test of the outer loop when \<^verbatim>\<open>deinit\<close> cleared the flag leaves the
  inner loop and, if the queue is not empty, pops one job all the same: the late take.
\<close>

definition worker_take :: "nat \<Rightarrow> AlgoRunnerIpml \<Rightarrow> AlgoRunnerIpml" where
  "worker_take i r = (if running r then pop_job i r else r)"

definition worker_take_late :: "nat \<Rightarrow> AlgoRunnerIpml \<Rightarrow> AlgoRunnerIpml" where
  "worker_take_late i r = (if running r then r else pop_job i r)"

definition worker_publish :: "nat \<Rightarrow> AlgoRunnerIpml \<Rightarrow> AlgoRunnerIpml cpp" where
  "worker_publish i r =
     (if i < length (workers r) then
        (case workers r ! i of
           None \<Rightarrow> Inr r
         | Some a \<Rightarrow>
             (case heap r a of
                None \<Rightarrow> Inl Null_Deref
              | Some job \<Rightarrow>
                  cpp_bind (compute (job_req job)) (\<lambda>(status, result).
                    Inr (r\<lparr>heap := (heap r)(a \<mapsto>
                             job\<lparr>job_status := status, job_result := result, job_done := True\<rparr>),
                           workers := (workers r)[i := None]\<rparr>))))
      else Inr r)"

text \<open>
  A schedule names which worker moves next. An event of a thread that cannot move (no job, no such
  thread) changes nothing.
\<close>

datatype worker_event = Take nat | Publish nat

fun worker_step :: "worker_event \<Rightarrow> AlgoRunnerIpml \<Rightarrow> AlgoRunnerIpml cpp" where
  "worker_step (Take i) r = Inr (worker_take i r)"
| "worker_step (Publish i) r = worker_publish i r"

fun run_workers :: "worker_event list \<Rightarrow> AlgoRunnerIpml \<Rightarrow> AlgoRunnerIpml cpp" where
  "run_workers [] r = Inr r"
| "run_workers (e # es) r = cpp_bind (worker_step e r) (run_workers es)"

section \<open>Submitting\<close>

text \<open>The ticket number: 48 bits of the steady clock, 16 bits of a counter.\<close>

definition make_ticket :: "u64 \<Rightarrow> u64 \<Rightarrow> u64" where
  "make_ticket ts seq = push_bit 16 ts OR (seq AND 0xFFFF)"

text \<open>
  \<open>ts\<close> is the reading of the steady clock and \<open>seq\<close> the static counter, which comes back
  incremented.
\<close>

definition impl_enqueue ::
  "u64 \<Rightarrow> u64 \<Rightarrow> SubmitRequest \<Rightarrow> AlgoRunnerIpml \<Rightarrow> u64 \<times> u64 \<times> AlgoRunnerIpml" where
  "impl_enqueue ts seq req r =
     (let a = next_addr r;
          jid = make_ticket ts seq;
          job = Job_default\<lparr>job_id := jid, job_req := req\<rparr>
      in (jid, seq + 1,
          r\<lparr>heap := (heap r)(a \<mapsto> job), next_addr := Suc a,
            jobs := (jobs r)(jid \<mapsto> a), jobQueue := jobQueue r @ [a]\<rparr>))"

definition findJobById :: "u64 \<Rightarrow> AlgoRunnerIpml \<Rightarrow> addr option" where
  "findJobById jid r = jobs r jid"

section \<open>Starting and stopping\<close>

text \<open>
  \<open>created ! i\<close> tells whether the \<open>i\<close>-th \<^verbatim>\<open>pthread_create\<close> succeeds.
  \<^verbatim>\<open>workers.reserve\<close> converts its argument to an unsigned size, so a negative thread
  count raises \<^verbatim>\<open>std::length_error\<close>.
\<close>

definition impl_init :: "bool list \<Rightarrow> AlgoRunnerIpml \<Rightarrow> (int \<times> AlgoRunnerIpml) cpp" where
  "impl_init created r =
     (if running r then Inr (EC_SUCCESS, r)
      else if maxThreads r < 0 then Inl Length_Error
      else Inr (EC_SUCCESS,
        r\<lparr>running := True,
          workers := workers r @ replicate (length (filter (\<lambda>c. c) (take (nat (maxThreads r)) created))) None\<rparr>))"

text \<open>
  What the workers still do while \<^verbatim>\<open>deinit\<close> stops them. \<open>st_late\<close>: the idle
  workers that were past the test of the outer loop, in the order they get \<^verbatim>\<open>qMtx\<close>; a
  worker that holds a job tests the flag again before it could take another, so each takes at most one.
  \<open>st_rest\<close>: the publications that follow. \<open>st_missed\<close>: the idle workers that found the
  flag set and the queue empty before the flag was cleared, but reach
  \<^verbatim>\<open>pthread_cond_wait\<close> only after the broadcast; that needs an empty queue. Nothing wakes
  them again, so \<^verbatim>\<open>pthread_join\<close> does not return, and neither does it for a worker that
  still holds a job when the schedule ends.
\<close>

record stop_schedule =
  st_late :: "nat list"
  st_rest :: "worker_event list"
  st_missed :: "nat list"

definition quiet_stop :: stop_schedule where
  "quiet_stop = \<lparr>st_late = [], st_rest = [], st_missed = []\<rparr>"

definition misses_broadcast :: "stop_schedule \<Rightarrow> AlgoRunnerIpml \<Rightarrow> bool" where
  "misses_broadcast st r \<longleftrightarrow>
     jobQueue r = [] \<and> (\<exists>i \<in> set (st_missed st). i < length (workers r) \<and> workers r ! i = None)"

definition impl_deinit :: "stop_schedule \<Rightarrow> AlgoRunnerIpml \<Rightarrow> (int \<times> AlgoRunnerIpml) cpp" where
  "impl_deinit st r =
     (if \<not> running r then Inr (EC_SUCCESS, r)
      else cpp_bind (run_workers (st_rest st) (fold worker_take_late (st_late st) (r\<lparr>running := False\<rparr>))) (\<lambda>r'.
        if misses_broadcast st r \<or> (\<exists>w \<in> set (workers r'). w \<noteq> None) then Inl Blocked
        else Inr (EC_SUCCESS, r'\<lparr>workers := []\<rparr>)))"

section \<open>Running and collecting\<close>

text \<open>\<^verbatim>\<open>AlgoRunnerIpml::run\<close>; the output is what the error check prints.\<close>

definition impl_run ::
  "check_site \<Rightarrow> u64 \<Rightarrow> u64 \<Rightarrow> SubmitRequest \<Rightarrow> SubmitResponse \<Rightarrow> AlgoRunnerIpml
    \<Rightarrow> (int \<times> SubmitResponse \<times> io_output \<times> u64 \<times> AlgoRunnerIpml) cpp" where
  "impl_run site ts seq request response r =
     (case sreq_mode request of
        BLOCKING \<Rightarrow>
          (let out = (case sresp_result response of None \<Rightarrow> None | Some v \<Rightarrow> v) in
           case sreq_payload request of
             Some (math m) \<Rightarrow>
               cpp_bind (runMath m out) (\<lambda>(result, out').
                 Inr (EC_SUCCESS, response\<lparr>sresp_result := Some out', sresp_status := result\<rparr>,
                      PRINT_ERROR_NO_RET (Ipc_status result) site, seq, r))
           | Some (str s) \<Rightarrow>
               (let (result, out') = runStr s out in
                Inr (EC_SUCCESS, response\<lparr>sresp_result := Some out', sresp_status := result\<rparr>,
                     PRINT_ERROR_NO_RET (Ipc_status result) site, seq, r))
           | None \<Rightarrow>
               Inr (EC_SUCCESS,
                    response\<lparr>sresp_result := Some out, sresp_status := ST_ERROR_INVALID_INPUT\<rparr>,
                    no_output, seq, r))
      | NONBLOCKING \<Rightarrow>
          (if sreq_payload request = None then
             Inr (EC_SUCCESS, response\<lparr>sresp_status := ST_ERROR_INVALID_INPUT\<rparr>, no_output, seq, r)
           else
             let (jid, seq', r') = impl_enqueue ts seq request r in
             Inr (EC_SUCCESS,
                  response\<lparr>sresp_status := ST_NOT_FINISHED, sresp_ticket := Some \<lparr>req_id = jid\<rparr>\<rparr>,
                  no_output, seq', r'))
      | SubmitMode_other _ \<Rightarrow>
          Inr (EC_SUCCESS, response\<lparr>sresp_status := ST_ERROR_INVALID_INPUT\<rparr>, no_output, seq, r))"

definition is_done :: "AlgoRunnerIpml \<Rightarrow> addr \<Rightarrow> bool" where
  "is_done r a \<longleftrightarrow> (case heap r a of None \<Rightarrow> False | Some job \<Rightarrow> job_done job)"

text \<open>
  The loop around \<^verbatim>\<open>pthread_cond_timedwait\<close>. One entry of the script is one call:
  what the workers do while the mutex is released, and the value it returns (0 for a wake-up,
  spurious ones included, otherwise the error number). A script that ends while the loop is waiting
  leaves the call blocked.
\<close>

fun wait_loop ::
  "addr \<Rightarrow> int \<Rightarrow> (worker_event list \<times> int) list \<Rightarrow> AlgoRunnerIpml \<Rightarrow> AlgoRunnerIpml cpp" where
  "wait_loop a timeout [] r =
     (if \<not> is_done r a \<and> timeout = 0 then Inl Blocked else Inr r)"
| "wait_loop a timeout ((ws, ret) # script) r =
     (if \<not> is_done r a \<and> timeout = 0
      then cpp_bind (run_workers ws r) (\<lambda>r'. wait_loop a ret script r')
      else Inr r)"

text \<open>The tail both wait modes share: report an unfinished job, or swap its result out and erase it.\<close>

definition collect_job ::
  "u64 \<Rightarrow> addr \<Rightarrow> GetResponse \<Rightarrow> AlgoRunnerIpml \<Rightarrow> (int \<times> GetResponse \<times> AlgoRunnerIpml) cpp" where
  "collect_job jid a response r =
     (case heap r a of
        None \<Rightarrow> Inl Null_Deref
      | Some job \<Rightarrow>
          if \<not> job_done job then
            Inr (EC_SUCCESS, response\<lparr>gresp_status := ST_NOT_FINISHED\<rparr>, r)
          else
            Inr (EC_SUCCESS,
                 response\<lparr>gresp_status := job_status job, gresp_result := Some (job_result job)\<rparr>,
                 r\<lparr>heap := (heap r)(a \<mapsto> job\<lparr>job_result :=
                       (case gresp_result response of None \<Rightarrow> None | Some v \<Rightarrow> v)\<rparr>),
                   jobs := (jobs r)(jid := None)\<rparr>))"

definition impl_get ::
  "timespec \<Rightarrow> (worker_event list \<times> int) list \<Rightarrow> GetRequest \<Rightarrow> GetResponse \<Rightarrow> AlgoRunnerIpml
    \<Rightarrow> (int \<times> GetResponse \<times> AlgoRunnerIpml) cpp" where
  "impl_get now script request response r =
     (let jid = greq_id request in
      case findJobById jid r of
        None \<Rightarrow> Inr (EC_SUCCESS, response\<lparr>gresp_status := ST_ERROR_INVALID_INPUT\<rparr>, r)
      | Some a \<Rightarrow>
          (case greq_wait_mode request of
             NO_WAIT \<Rightarrow> collect_job jid a response r
           | WAIT_UP_TO \<Rightarrow>
               cpp_bind (addMsToTimespec now (greq_timeout_ms request)) (\<lambda>ts.
               cpp_bind (wait_loop a 0 script r) (\<lambda>r'. collect_job jid a response r'))
           | GetWaitMode_other _ \<Rightarrow>
               Inr (EC_SUCCESS, response\<lparr>gresp_status := ST_ERROR_INVALID_INPUT\<rparr>, r)))"

section \<open>The public handle\<close>

text \<open>
  \<^verbatim>\<open>AlgoRunner\<close> holds the implementation object or a null pointer; \<open>seq\<close> is the
  function-static counter of \<^verbatim>\<open>enqueue\<close>, which outlives the object.
\<close>

record AlgoRunner =
  outImpl :: "AlgoRunnerIpml option"
  static_seq :: u64

definition AlgoRunner_new :: AlgoRunner where
  "AlgoRunner_new = \<lparr>outImpl = None, static_seq = 0\<rparr>"

definition AlgoRunner_init :: "bool list \<Rightarrow> int \<Rightarrow> AlgoRunner \<Rightarrow> (int \<times> AlgoRunner) cpp" where
  "AlgoRunner_init created threads h =
     (case outImpl h of
        Some r \<Rightarrow> Inr (EC_SUCCESS, h)
      | None \<Rightarrow> cpp_bind (impl_init created (AlgoRunnerIpml_new threads)) (\<lambda>(rc, r).
          Inr (rc, h\<lparr>outImpl := Some r\<rparr>)))"

definition AlgoRunner_deinit :: "stop_schedule \<Rightarrow> AlgoRunner \<Rightarrow> (int \<times> AlgoRunner) cpp" where
  "AlgoRunner_deinit st h =
     (case outImpl h of
        None \<Rightarrow> Inr (EC_SUCCESS, h)
      | Some r \<Rightarrow> cpp_bind (impl_deinit st r) (\<lambda>(result, r').
          Inr (result, h\<lparr>outImpl := None\<rparr>)))"

definition AlgoRunner_run ::
  "check_site \<Rightarrow> u64 \<Rightarrow> SubmitRequest \<Rightarrow> SubmitResponse \<Rightarrow> AlgoRunner
    \<Rightarrow> (int \<times> SubmitResponse \<times> io_output \<times> AlgoRunner) cpp" where
  "AlgoRunner_run site ts request response h =
     (case outImpl h of
        None \<Rightarrow> Inr (EC_FAILURE, response, no_output, h)
      | Some r \<Rightarrow>
          cpp_bind (impl_run site ts (static_seq h) request response r) (\<lambda>(rc, resp, out, seq', r').
            Inr (rc, resp, out, h\<lparr>outImpl := Some r', static_seq := seq'\<rparr>)))"

definition AlgoRunner_get ::
  "timespec \<Rightarrow> (worker_event list \<times> int) list \<Rightarrow> GetRequest \<Rightarrow> GetResponse \<Rightarrow> AlgoRunner
    \<Rightarrow> (int \<times> GetResponse \<times> AlgoRunner) cpp" where
  "AlgoRunner_get now script request response h =
     (case outImpl h of
        None \<Rightarrow> Inr (EC_FAILURE, response, h)
      | Some r \<Rightarrow>
          cpp_bind (impl_get now script request response r) (\<lambda>(rc, resp, r').
            Inr (rc, resp, h\<lparr>outImpl := Some r'\<rparr>)))"

section \<open>A schedule that finishes everything\<close>

text \<open>Every worker publishes what it holds, then the first one works off the queue.\<close>

definition drain_schedule :: "AlgoRunnerIpml \<Rightarrow> worker_event list" where
  "drain_schedule r =
     map Publish [0..<length (workers r)] @ concat (replicate (length (jobQueue r)) [Take 0, Publish 0])"

text \<open>An addition as a non-blocking request.\<close>

definition sum_request :: "i32 \<Rightarrow> i32 \<Rightarrow> SubmitRequest" where
  "sum_request a b =
     \<lparr>sreq_mode = NONBLOCKING, sreq_payload = Some (math \<lparr>math_op = MATH_ADD, math_a = a, math_b = b\<rparr>)\<rparr>"

text \<open>A runner with one idle worker and one submitted addition, whose ticket is 327680.\<close>

definition one_job_runner :: AlgoRunnerIpml where
  "one_job_runner = snd (snd (impl_enqueue 5 0 (sum_request 2 3)
     ((AlgoRunnerIpml_new 1)\<lparr>running := True, workers := [None]\<rparr>)))"

definition one_job_get :: GetRequest where
  "one_job_get = \<lparr>greq_ticket = Some \<lparr>req_id = 327680\<rparr>, greq_wait_mode = WAIT_UP_TO,
     greq_timeout_ms = 500\<rparr>"

section \<open>The invariant\<close>

text \<open>Worker \<open>i\<close> holds the job at address \<open>a\<close>.\<close>

definition holds :: "AlgoRunnerIpml \<Rightarrow> nat \<Rightarrow> addr \<Rightarrow> bool" where
  "holds r i a \<longleftrightarrow> i < length (workers r) \<and> workers r ! i = Some a"

text \<open>Where a job is: in the queue or with a worker.\<close>

definition in_flight :: "AlgoRunnerIpml \<Rightarrow> addr \<Rightarrow> bool" where
  "in_flight r a \<longleftrightarrow> a \<in> set (jobQueue r) \<or> (\<exists>i. holds r i a)"

text \<open>
  The store is exactly the allocated addresses; a table entry leads to the job with its ticket; a job
  is in at most one place; it is in flight until it is done; an unfinished job has its initial status
  and no result; and a finished job that the table still holds carries the outcome of its own request.
\<close>

definition runner_inv :: "AlgoRunnerIpml \<Rightarrow> bool" where
  "runner_inv r \<longleftrightarrow>
     dom (heap r) = {..<next_addr r} \<and>
     (\<forall>jid a. jobs r jid = Some a \<longrightarrow> (\<exists>job. heap r a = Some job \<and> job_id job = jid)) \<and>
     distinct (jobQueue r) \<and>
     (\<forall>i j a. holds r i a \<longrightarrow> holds r j a \<longrightarrow> i = j) \<and>
     (\<forall>i a. holds r i a \<longrightarrow> a \<notin> set (jobQueue r)) \<and>
     (\<forall>a. in_flight r a \<longrightarrow> a < next_addr r) \<and>
     (\<forall>a job. heap r a = Some job \<longrightarrow> (job_done job \<longleftrightarrow> \<not> in_flight r a)) \<and>
     (\<forall>a job. heap r a = Some job \<longrightarrow> \<not> job_done job \<longrightarrow>
        job_status job = ST_NOT_FINISHED \<and> job_result job = None) \<and>
     (\<forall>jid a job. jobs r jid = Some a \<longrightarrow> heap r a = Some job \<longrightarrow> job_done job \<longrightarrow>
        compute (job_req job) = Inr (job_status job, job_result job))"

lemma runner_invI:
  assumes "dom (heap r) = {..<next_addr r}"
    and "\<And>jid a. jobs r jid = Some a \<Longrightarrow> \<exists>job. heap r a = Some job \<and> job_id job = jid"
    and "distinct (jobQueue r)"
    and "\<And>i j a. holds r i a \<Longrightarrow> holds r j a \<Longrightarrow> i = j"
    and "\<And>i a. holds r i a \<Longrightarrow> a \<notin> set (jobQueue r)"
    and "\<And>a. in_flight r a \<Longrightarrow> a < next_addr r"
    and "\<And>a job. heap r a = Some job \<Longrightarrow> job_done job \<longleftrightarrow> \<not> in_flight r a"
    and "\<And>a job. heap r a = Some job \<Longrightarrow> \<not> job_done job \<Longrightarrow>
      job_status job = ST_NOT_FINISHED \<and> job_result job = None"
    and "\<And>jid a job. jobs r jid = Some a \<Longrightarrow> heap r a = Some job \<Longrightarrow> job_done job \<Longrightarrow>
      compute (job_req job) = Inr (job_status job, job_result job)"
  shows "runner_inv r"
  unfolding runner_inv_def using assms by (intro conjI allI impI) simp_all

lemma runner_invD:
  assumes "runner_inv r"
  shows inv_heap: "dom (heap r) = {..<next_addr r}"
    and inv_table: "jobs r jid = Some a \<Longrightarrow> \<exists>job. heap r a = Some job \<and> job_id job = jid"
    and inv_queue: "distinct (jobQueue r)"
    and inv_holds: "holds r i a \<Longrightarrow> holds r j a \<Longrightarrow> i = j"
    and inv_apart: "holds r i a \<Longrightarrow> a \<notin> set (jobQueue r)"
    and inv_bound: "in_flight r a \<Longrightarrow> a < next_addr r"
    and inv_done: "heap r a = Some job \<Longrightarrow> job_done job \<longleftrightarrow> \<not> in_flight r a"
    and inv_open: "heap r a = Some job \<Longrightarrow> \<not> job_done job \<Longrightarrow>
      job_status job = ST_NOT_FINISHED \<and> job_result job = None"
    and inv_outcome: "jobs r jid = Some a \<Longrightarrow> heap r a = Some job \<Longrightarrow> job_done job \<Longrightarrow>
      compute (job_req job) = Inr (job_status job, job_result job)"
  using assms unfolding runner_inv_def by blast+

text \<open>Two tickets never lead to the same job.\<close>

lemma inv_table_inj: "runner_inv r \<Longrightarrow> jobs r t = Some a \<Longrightarrow> jobs r u = Some a \<Longrightarrow> t = u"
  by (metis inv_table option.inject)

lemma inv_alloc: "runner_inv r \<Longrightarrow> heap r a = Some job \<Longrightarrow> a < next_addr r"
  using inv_heap [of r] by auto

lemma inv_fresh: "runner_inv r \<Longrightarrow> \<not> in_flight r (next_addr r) \<and> heap r (next_addr r) = None"
  using inv_bound [of r "next_addr r"] inv_heap [of r] by (auto simp: dom_def)

section \<open>Every operation keeps it\<close>

lemma runner_inv_new [inv_pres]: "runner_inv (AlgoRunnerIpml_new threads)"
  by (auto simp: runner_inv_def AlgoRunnerIpml_new_def holds_def in_flight_def)

lemma holds_pop:
  assumes "i < length (workers r)" "workers r ! i = None" "jobQueue r = a # q"
  shows "holds (pop_job i r) j b \<longleftrightarrow> (j = i \<and> b = a) \<or> (j \<noteq> i \<and> holds r j b)"
  using assms by (auto simp: pop_job_def holds_def nth_list_update)

lemma in_flight_pop: "in_flight (pop_job i r) b \<longleftrightarrow> in_flight r b"
proof (cases "i < length (workers r) \<and> workers r ! i = None \<and> jobQueue r \<noteq> []")
  case True
  then obtain a q where q: "jobQueue r = a # q" by (cases "jobQueue r") auto
  with True have "jobQueue (pop_job i r) = q" by (simp add: pop_job_def)
  moreover have "\<not> holds r i b" using True by (simp add: holds_def)
  then have "(\<exists>j. holds (pop_job i r) j b) \<longleftrightarrow> b = a \<or> (\<exists>j. holds r j b)"
    using True by (auto simp: holds_pop [OF _ _ q])
  ultimately show ?thesis using q by (auto simp: in_flight_def)
next
  case False
  then show ?thesis by (auto simp: pop_job_def split: list.split)
qed

lemma pop_job_frame [simp]:
  "heap (pop_job i r) = heap r" "jobs (pop_job i r) = jobs r"
  "next_addr (pop_job i r) = next_addr r" "running (pop_job i r) = running r"
  "length (workers (pop_job i r)) = length (workers r)"
  by (auto simp: pop_job_def split: list.split)

lemma runner_inv_pop [inv_pres]:
  assumes "runner_inv r"
  shows "runner_inv (pop_job i r)"
proof (cases "i < length (workers r) \<and> workers r ! i = None \<and> jobQueue r \<noteq> []")
  case True
  then obtain a q where q: "jobQueue r = a # q" by (cases "jobQueue r") auto
  with True have q': "jobQueue (pop_job i r) = q" by (simp add: pop_job_def)
  note hold = holds_pop [of i r a q]
  show ?thesis
  proof (rule runner_invI)
    show "distinct (jobQueue (pop_job i r))" using inv_queue [OF assms] q q' by simp
  next
    fix j k b assume "holds (pop_job i r) j b" "holds (pop_job i r) k b"
    then show "j = k"
      using True q by (auto simp: hold dest: inv_holds [OF assms] inv_apart [OF assms])
  next
    fix j b assume "holds (pop_job i r) j b"
    then show "b \<notin> set (jobQueue (pop_job i r))"
      using True q q' inv_queue [OF assms] by (auto simp: hold dest: inv_apart [OF assms])
  qed (use assms in \<open>auto simp: in_flight_pop dest: inv_heap inv_table inv_bound inv_done
        inv_open inv_outcome\<close>)
next
  case False
  then have "pop_job i r = r" by (auto simp: pop_job_def split: list.split)
  with assms show ?thesis by simp
qed

lemma worker_take_frame [simp]:
  "heap (worker_take i r) = heap r" "jobs (worker_take i r) = jobs r"
  "next_addr (worker_take i r) = next_addr r" "running (worker_take i r) = running r"
  "length (workers (worker_take i r)) = length (workers r)"
  "heap (worker_take_late i r) = heap r" "jobs (worker_take_late i r) = jobs r"
  "running (worker_take_late i r) = running r"
  by (simp_all add: worker_take_def worker_take_late_def)

lemma runner_inv_take [inv_pres]: "runner_inv r \<Longrightarrow> runner_inv (worker_take i r)"
  by (simp add: worker_take_def runner_inv_pop)

lemma runner_inv_take_late [inv_pres]: "runner_inv r \<Longrightarrow> runner_inv (worker_take_late i r)"
  by (simp add: worker_take_late_def runner_inv_pop)

lemma runner_inv_late_takes [inv_pres]: "runner_inv r \<Longrightarrow> runner_inv (fold worker_take_late is r)"
  by (induction "is" arbitrary: r) (simp_all add: runner_inv_take_late)

lemma worker_publish_Inr:
  assumes "worker_publish i r = Inr r'"
  obtains (idle) "r' = r" "\<And>a. \<not> holds r i a"
  | (finish) a job status result where "holds r i a" "heap r a = Some job"
    "compute (job_req job) = Inr (status, result)"
    "r' = r\<lparr>heap := (heap r)(a \<mapsto>
       job\<lparr>job_status := status, job_result := result, job_done := True\<rparr>),
       workers := (workers r)[i := None]\<rparr>"
  using assms
  by (auto simp: worker_publish_def holds_def cpp_simps split: if_splits option.splits)

lemma holds_release:
  "holds (r\<lparr>heap := h, workers := (workers r)[i := None]\<rparr>) j b \<longleftrightarrow> j \<noteq> i \<and> holds r j b"
  by (cases "i < length (workers r)"; cases "j = i") (auto simp: holds_def)

lemma in_flight_release:
  assumes "runner_inv r" "holds r i a"
  shows "in_flight (r\<lparr>heap := h, workers := (workers r)[i := None]\<rparr>) b \<longleftrightarrow> in_flight r b \<and> b \<noteq> a"
  using assms inv_apart [OF assms] inv_holds [OF assms(1)]
  by (auto simp: in_flight_def holds_release) (auto simp: holds_def)

lemma runner_inv_publish [inv_pres]:
  assumes inv: "runner_inv r" and "worker_publish i r = Inr r'"
  shows "runner_inv r'"
  using assms(2)
proof (cases rule: worker_publish_Inr)
  case idle
  with inv show ?thesis by simp
next
  case (finish a job status result)
  have a: "a < next_addr r" using inv_alloc [OF inv finish(2)] .
  show ?thesis
    unfolding finish(4)
  proof (rule runner_invI, unfold holds_release in_flight_release [OF inv finish(1)])
  qed (use inv a finish in \<open>auto simp: compute_finished dest: inv_heap inv_table inv_queue inv_holds
      inv_apart inv_bound inv_done inv_open inv_outcome split: if_splits\<close>)
qed

lemma runner_inv_worker_step [inv_pres]:
  "runner_inv r \<Longrightarrow> worker_step e r = Inr r' \<Longrightarrow> runner_inv r'"
  by (cases e) (auto intro: inv_pres)

lemma runner_inv_run_workers [inv_pres]:
  "runner_inv r \<Longrightarrow> run_workers es r = Inr r' \<Longrightarrow> runner_inv r'"
  by (induction es arbitrary: r) (auto simp: cpp_simps intro: inv_pres)

lemma in_flight_enqueue:
  "in_flight (snd (snd (impl_enqueue ts seq req r))) b \<longleftrightarrow> in_flight r b \<or> b = next_addr r"
  by (auto simp: impl_enqueue_def Let_def in_flight_def holds_def)

lemma runner_inv_enqueue [inv_pres]:
  assumes inv: "runner_inv r" and "impl_enqueue ts seq req r = (jid, seq', r')"
  shows "runner_inv r'"
proof -
  have r': "r' = snd (snd (impl_enqueue ts seq req r))" using assms(2) by simp
  note fresh = inv_fresh [OF inv]
  have nq: "next_addr r \<notin> set (jobQueue r)" "\<And>i. \<not> holds r i (next_addr r)"
    using fresh by (auto simp: in_flight_def)
  have fl: "in_flight r' b \<longleftrightarrow> in_flight r b \<or> b = next_addr r" for b
    by (simp add: r' in_flight_enqueue)
  have ho: "holds r' i b \<longleftrightarrow> holds r i b" for i b
    by (simp add: r' impl_enqueue_def Let_def holds_def)
  have tab: "jobs r t = Some a \<Longrightarrow> a \<noteq> next_addr r" for t a
    using inv_table [OF inv, of t a] inv_alloc [OF inv, of a] by auto
  show ?thesis
  proof (rule runner_invI, unfold fl ho)
    show "dom (heap r') = {..<next_addr r'}"
      using inv_heap [OF inv] by (auto simp: r' impl_enqueue_def Let_def)
  next
    fix jid a assume "jobs r' jid = Some a"
    then show "\<exists>job. heap r' a = Some job \<and> job_id job = jid"
      using inv_table [OF inv] tab by (auto simp: r' impl_enqueue_def Let_def split: if_splits)
  next
    fix a job assume h: "heap r' a = Some job"
    show "job_done job \<longleftrightarrow> \<not> (in_flight r a \<or> a = next_addr r)"
      using h inv_done [OF inv, of a job]
      by (auto simp: r' impl_enqueue_def Let_def Job_default_def split: if_splits)
    show "\<not> job_done job \<Longrightarrow> job_status job = ST_NOT_FINISHED \<and> job_result job = None"
      using h inv_open [OF inv, of a job]
      by (auto simp: r' impl_enqueue_def Let_def Job_default_def split: if_splits)
  next
    fix jid a job assume "jobs r' jid = Some a" "heap r' a = Some job" "job_done job"
    then show "compute (job_req job) = Inr (job_status job, job_result job)"
      using inv_outcome [OF inv, of _ a job] tab
      by (auto simp: r' impl_enqueue_def Let_def Job_default_def split: if_splits)
  qed (use inv nq in \<open>auto simp: r' impl_enqueue_def Let_def dest: inv_queue inv_holds inv_apart
      inv_bound\<close>)
qed

lemma collect_job_Inr:
  assumes "collect_job jid a response r = Inr (rc, resp, r')"
  obtains (unfinished) job where "heap r a = Some job" "\<not> job_done job" "r' = r"
    "resp = response\<lparr>gresp_status := ST_NOT_FINISHED\<rparr>" "rc = EC_SUCCESS"
  | (finished) job where "heap r a = Some job" "job_done job" "rc = EC_SUCCESS"
    "resp = response\<lparr>gresp_status := job_status job, gresp_result := Some (job_result job)\<rparr>"
    "r' = r\<lparr>heap := (heap r)(a \<mapsto> job\<lparr>job_result :=
       (case gresp_result response of None \<Rightarrow> None | Some v \<Rightarrow> v)\<rparr>), jobs := (jobs r)(jid := None)\<rparr>"
  using assms by (auto simp: collect_job_def split: option.splits if_splits)

lemma runner_inv_collect [inv_pres]:
  assumes inv: "runner_inv r" and tab: "jobs r jid = Some a"
    and "collect_job jid a response r = Inr (rc, resp, r')"
  shows "runner_inv r'"
  using assms(3)
proof (cases rule: collect_job_Inr)
  case (unfinished job)
  with inv show ?thesis by simp
next
  case (finished job)
  have other: "jobs r t = Some a \<Longrightarrow> t = jid" for t
    using inv_table_inj [OF inv _ tab] by auto
  have same: "holds r' i b \<longleftrightarrow> holds r i b" "in_flight r' b \<longleftrightarrow> in_flight r b" for i b
    by (auto simp: finished(5) holds_def in_flight_def)
  have "a < next_addr r" using inv_alloc [OF inv finished(1)] .
  show ?thesis
  proof (rule runner_invI, unfold same)
  qed (use inv finished other \<open>a < next_addr r\<close> in \<open>auto dest: inv_heap inv_table inv_queue
      inv_holds inv_apart inv_bound inv_done inv_open inv_outcome split: if_splits\<close>)
qed

lemma runner_inv_wait_loop [inv_pres]:
  "runner_inv r \<Longrightarrow> wait_loop a timeout script r = Inr r' \<Longrightarrow> runner_inv r'"
  by (induction a timeout script r rule: wait_loop.induct)
    (auto simp: cpp_simps intro: inv_pres split: if_splits)

lemma worker_step_table [simp]:
  "worker_step e r = Inr r' \<Longrightarrow> jobs r' = jobs r \<and> next_addr r' = next_addr r \<and> running r' = running r"
  by (cases e) (auto elim: worker_publish_Inr)

lemma run_workers_table:
  "run_workers es r = Inr r' \<Longrightarrow> jobs r' = jobs r \<and> next_addr r' = next_addr r \<and> running r' = running r"
  by (induction es arbitrary: r) (fastforce simp: cpp_simps)+

lemma wait_loop_table: "wait_loop a timeout script r = Inr r' \<Longrightarrow> jobs r' = jobs r \<and> running r' = running r"
  by (induction a timeout script r rule: wait_loop.induct)
    (auto simp: cpp_simps dest: run_workers_table split: if_splits)

text \<open>How a \<^verbatim>\<open>get\<close> that returns came about.\<close>

lemma impl_get_Inr:
  assumes "impl_get now script request response r = Inr (rc, resp, r')"
  obtains (refused) "r' = r" "rc = EC_SUCCESS"
    "resp = response\<lparr>gresp_status := ST_ERROR_INVALID_INPUT\<rparr>"
    "jobs r (greq_id request) = None \<or> (\<exists>n. greq_wait_mode request = GetWaitMode_other n)"
  | (collected) a r1 where "jobs r (greq_id request) = Some a"
    "r1 = r \<or> (greq_wait_mode request = WAIT_UP_TO \<and> wait_loop a 0 script r = Inr r1)"
    "collect_job (greq_id request) a response r1 = Inr (rc, resp, r')"
proof (cases "jobs r (greq_id request)")
  case None
  with assms show ?thesis by (intro refused) (simp_all add: impl_get_def findJobById_def Let_def)
next
  case (Some a)
  show ?thesis
  proof (cases "greq_wait_mode request")
    case NO_WAIT
    with assms Some show ?thesis
      by (intro collected [of a r]) (simp_all add: impl_get_def findJobById_def Let_def)
  next
    case WAIT_UP_TO
    with assms Some obtain r1 where "wait_loop a 0 script r = Inr r1"
        "collect_job (greq_id request) a response r1 = Inr (rc, resp, r')"
      by (auto simp: impl_get_def findJobById_def Let_def cpp_bind_eq_Inr)
    with WAIT_UP_TO Some show ?thesis by (intro collected [of a r1]) simp_all
  next
    case (GetWaitMode_other n)
    with assms Some show ?thesis
      by (intro refused) (simp_all add: impl_get_def findJobById_def Let_def)
  qed
qed

lemma runner_inv_get [inv_pres]:
  assumes inv: "runner_inv r" and "impl_get now script request response r = Inr (rc, resp, r')"
  shows "runner_inv r'"
  using assms(2)
proof (cases rule: impl_get_Inr)
  case refused
  with inv show ?thesis by simp
next
  case (collected a r1)
  have "runner_inv r1 \<and> jobs r1 = jobs r"
    using collected(2) inv runner_inv_wait_loop wait_loop_table by blast
  with collected(1,3) show ?thesis using runner_inv_collect by metis
qed

lemma runner_inv_run [inv_pres]:
  assumes "runner_inv r"
    and "impl_run site ts seq request response r = Inr (rc, resp, out, seq', r')"
  shows "runner_inv r'"
  using assms
  by (auto simp: impl_run_def Let_def cpp_simps intro: inv_pres
      split: option.splits SubmitMode.splits Payload.splits prod.splits if_splits)

lemma runner_inv_init [inv_pres]:
  assumes inv: "runner_inv r" and "workers r = []" and "impl_init created r = Inr (rc, r')"
  shows "runner_inv r'"
proof -
  have "holds r' i b \<longleftrightarrow> holds r i b" "in_flight r' b \<longleftrightarrow> in_flight r b" for i b
    using assms(2,3) by (auto simp: impl_init_def holds_def in_flight_def split: if_splits)
  moreover have "heap r' = heap r" "jobs r' = jobs r" "next_addr r' = next_addr r"
      "jobQueue r' = jobQueue r"
    using assms(3) by (auto simp: impl_init_def split: if_splits)
  ultimately show ?thesis using inv unfolding runner_inv_def by simp
qed

lemma runner_inv_stop: "runner_inv r \<Longrightarrow> runner_inv (r\<lparr>running := b\<rparr>)"
  by (simp add: runner_inv_def holds_def in_flight_def)

lemma runner_inv_deinit [inv_pres]:
  assumes "runner_inv r" and "impl_deinit st r = Inr (rc, r')"
  shows "runner_inv r'"
proof (cases "running r")
  case True
  with assms(2) obtain r1 where
      r1: "run_workers (st_rest st) (fold worker_take_late (st_late st) (r\<lparr>running := False\<rparr>)) = Inr r1"
      "\<forall>w \<in> set (workers r1). w = None" "r' = r1\<lparr>workers := []\<rparr>"
    by (auto simp: impl_deinit_def cpp_bind_eq_Inr split: if_splits)
  have "runner_inv (r\<lparr>running := False\<rparr>)" using runner_inv_stop [OF assms(1)] .
  then have inv: "runner_inv r1" using runner_inv_run_workers [OF runner_inv_late_takes r1(1)] by blast
  have none: "holds r1 i a = False" for i a using r1(2) by (force simp: holds_def dest: nth_mem)
  then have "holds r' i a = False" for i a by (simp add: r1(3) holds_def)
  moreover from this have "in_flight r' a = in_flight r1 a" for a
    using none by (simp add: in_flight_def) (simp add: r1(3))
  ultimately show ?thesis using inv none unfolding runner_inv_def by (simp add: r1(3))
qed (use assms in \<open>simp add: impl_deinit_def\<close>)

text \<open>Starting sets \<^verbatim>\<open>running\<close>; submissions and collections leave it as it is.\<close>

lemma impl_init_running: "impl_init created r = Inr (rc, r') \<Longrightarrow> running r'"
  by (auto simp: impl_init_def split: if_splits)

lemma impl_run_running:
  "impl_run site ts seq req resp0 r = Inr (rc, resp, out, seq', r') \<Longrightarrow> running r' = running r"
  by (auto simp: impl_run_def impl_enqueue_def Let_def cpp_bind_eq_Inr
      simp del: runMath.simps runStr.simps split: SubmitMode.splits option.splits Payload.splits if_splits prod.splits)

lemma impl_get_running:
  assumes "impl_get now script req resp0 r = Inr (rc, resp, r')"
  shows "running r' = running r"
  using assms
proof (cases rule: impl_get_Inr)
  case (collected a r1)
  then have "running r1 = running r" using wait_loop_table by blast
  with collected(3) show ?thesis by (auto elim: collect_job_Inr)
qed simp

section \<open>Refinement of the ticket service\<close>

definition runner_tickets :: "AlgoRunnerIpml \<Rightarrow> tickets" where
  "runner_tickets r jid =
     (case jobs r jid of
        None \<Rightarrow> None
      | Some a \<Rightarrow>
          (case heap r a of
             None \<Rightarrow> None
           | Some job \<Rightarrow> Some (if job_done job then Ready (job_req job) else Pending (job_req job))))"

text \<open>The operations with the static counter as part of the state.\<close>

definition runner_submit ::
  "u64 \<Rightarrow> SubmitRequest \<Rightarrow> u64 \<times> AlgoRunnerIpml \<Rightarrow> u64 \<times> u64 \<times> AlgoRunnerIpml" where
  "runner_submit ts req s = impl_enqueue ts (fst s) req (snd s)"

definition runner_work ::
  "worker_event \<Rightarrow> u64 \<times> AlgoRunnerIpml \<Rightarrow> (u64 \<times> AlgoRunnerIpml) cpp" where
  "runner_work e s = cpp_bind (worker_step e (snd s)) (\<lambda>r'. Inr (fst s, r'))"

type_synonym get_call = "timespec \<times> (worker_event list \<times> int) list \<times> GetRequest"

definition runner_fetch ::
  "get_call \<Rightarrow> u64 \<times> AlgoRunnerIpml \<Rightarrow> (GetResponse \<times> u64 \<times> AlgoRunnerIpml) cpp" where
  "runner_fetch g s =
     (case g of (now, script, request) \<Rightarrow>
        cpp_bind (impl_get now script request GetResponse_default (snd s)) (\<lambda>(rc, resp, r').
          Inr (resp, fst s, r')))"

definition get_key :: "get_call \<Rightarrow> u64" where
  "get_key g = greq_id (snd (snd g))"

definition get_valid :: "get_call \<Rightarrow> bool" where
  "get_valid g \<longleftrightarrow> greq_wait_mode (snd (snd g)) \<in> {NO_WAIT, WAIT_UP_TO}"

lemma tickets_publish:
  assumes inv: "runner_inv r" and "worker_publish i r = Inr r'"
  shows "progress (runner_tickets r) (runner_tickets r')"
  using assms(2)
proof (cases rule: worker_publish_Inr)
  case idle
  then show ?thesis by simp
next
  case (finish a job status result)
  have "in_flight r a" using finish(1) by (auto simp: in_flight_def)
  with inv_done [OF inv finish(2)] have open_job: "\<not> job_done job" by simp
  show ?thesis
    unfolding progress_def
  proof
    fix jid
    show "runner_tickets r' jid = runner_tickets r jid \<or>
      (\<exists>req. runner_tickets r jid = Some (Pending req) \<and> runner_tickets r' jid = Some (Ready req) \<and>
        cpp_defined (compute req))"
      using finish open_job
      by (cases "jobs r jid = Some a") (auto simp: runner_tickets_def split: option.split)
  qed
qed

lemma tickets_take [simp]: "runner_tickets (worker_take i r) = runner_tickets r"
  by (rule ext) (simp add: runner_tickets_def split: option.split)

lemma tickets_worker_step:
  "runner_inv r \<Longrightarrow> worker_step e r = Inr r' \<Longrightarrow> progress (runner_tickets r) (runner_tickets r')"
  by (cases e) (auto intro: tickets_publish)

lemma tickets_run_workers:
  "runner_inv r \<Longrightarrow> run_workers es r = Inr r' \<Longrightarrow> progress (runner_tickets r) (runner_tickets r')"
proof (induction es arbitrary: r)
  case (Cons e es)
  then obtain r1 where "worker_step e r = Inr r1" "run_workers es r1 = Inr r'"
    by (auto simp: cpp_bind_eq_Inr)
  with Cons show ?case
    using runner_inv_worker_step tickets_worker_step progress_trans by blast
qed simp

lemma tickets_wait_loop:
  "runner_inv r \<Longrightarrow> wait_loop a timeout script r = Inr r' \<Longrightarrow>
    progress (runner_tickets r) (runner_tickets r')"
proof (induction a timeout script r rule: wait_loop.induct)
  case (2 a timeout ws ret script r)
  show ?case
  proof (cases "\<not> is_done r a \<and> timeout = 0")
    case True
    with 2(3) obtain r1 where "run_workers ws r = Inr r1" "wait_loop a ret script r1 = Inr r'"
      by (auto simp: cpp_bind_eq_Inr)
    with 2 True show ?thesis
      using runner_inv_run_workers tickets_run_workers progress_trans by blast
  next
    case False
    with 2(3) show ?thesis by simp
  qed
qed (simp split: if_splits)

lemma tickets_enqueue:
  assumes inv: "runner_inv r" and "impl_enqueue ts seq req r = (jid, seq', r')"
  shows "runner_tickets r' = (runner_tickets r)(jid \<mapsto> Pending req)"
proof
  fix t
  have "jobs r t = Some a \<Longrightarrow> a \<noteq> next_addr r" for a
    using inv_table [OF inv, of t a] inv_alloc [OF inv, of a] by auto
  then show "runner_tickets r' t = ((runner_tickets r)(jid \<mapsto> Pending req)) t"
    using assms(2)
    by (cases "t = jid"; cases "jobs r t")
      (auto simp: runner_tickets_def impl_enqueue_def Let_def Job_default_def)
qed

lemma tickets_collect:
  assumes inv: "runner_inv r" and tab: "jobs r jid = Some a"
    and "collect_job jid a GetResponse_default r = Inr (rc, resp, r')"
  shows "spec_get jid (runner_tickets r) = (resp, runner_tickets r')"
  using assms(3)
proof (cases rule: collect_job_Inr)
  case (unfinished job)
  with tab show ?thesis
    by (simp add: spec_get_def runner_tickets_def GetResponse_default_def)
next
  case (finished job)
  have "jobs r t = Some a \<Longrightarrow> t = jid" for t
    using inv_table_inj [OF inv _ tab] by auto
  then have "runner_tickets r' = (runner_tickets r)(jid := None)"
    using finished by (auto simp: runner_tickets_def fun_eq_iff split: option.split)
  then show ?thesis
    using finished tab inv_outcome [OF inv tab finished(1,2)]
    by (simp add: spec_get_def runner_tickets_def GetResponse_default_def)
qed

lemma ready_defined_runner: "runner_inv r \<Longrightarrow> ready_defined (runner_tickets r)"
  by (auto simp: ready_defined_def runner_tickets_def cpp_defined_def dest: inv_outcome
      split: option.splits if_splits)

lemma runner_fetch_law:
  assumes inv: "runner_inv (snd s)" and "get_valid g" and "runner_fetch g s = Inr (resp, s')"
  shows "\<exists>t. progress (runner_tickets (snd s)) t \<and>
    spec_get (get_key g) t = (resp, runner_tickets (snd s'))"
proof -
  obtain now script request where g: "g = (now, script, request)" by (cases g)
  with assms(3) obtain rc where
      get: "impl_get now script request GetResponse_default (snd s) = Inr (rc, resp, snd s')"
    by (auto simp: runner_fetch_def cpp_bind_eq_Inr)
  from get show ?thesis
  proof (cases rule: impl_get_Inr)
    case refused
    with assms(2) g have "jobs (snd s) (get_key g) = None" by (auto simp: get_valid_def get_key_def)
    with refused show ?thesis
      by (intro exI [of _ "runner_tickets (snd s)"])
        (simp add: spec_get_def runner_tickets_def GetResponse_default_def)
  next
    case (collected a r1)
    have "runner_inv r1" "jobs r1 = jobs (snd s)"
        "progress (runner_tickets (snd s)) (runner_tickets r1)"
      using collected(2) inv runner_inv_wait_loop wait_loop_table tickets_wait_loop by auto
    with collected g show ?thesis
      using tickets_collect [of r1 "get_key g" a rc resp "snd s'"] by (auto simp: get_key_def)
  qed
qed

lemma runner_fetch_inv: "runner_inv (snd s) \<Longrightarrow> runner_fetch g s = Inr (resp, s') \<Longrightarrow> runner_inv (snd s')"
  by (cases g) (auto simp: runner_fetch_def cpp_bind_eq_Inr intro: runner_inv_get)

interpretation rt: ticket_service runner_submit runner_work runner_fetch get_key get_valid
  "\<lambda>s. runner_inv (snd s)" "\<lambda>s. runner_tickets (snd s)"
proof
  fix s :: "u64 \<times> AlgoRunnerIpml" and c req jid s'
  assume "runner_inv (snd s)" "runner_submit c req s = (jid, s')"
  then show "runner_inv (snd s') \<and>
      runner_tickets (snd s') = (runner_tickets (snd s))(jid \<mapsto> Pending req)"
    by (cases s') (auto simp: runner_submit_def intro: runner_inv_enqueue tickets_enqueue)
next
  fix s :: "u64 \<times> AlgoRunnerIpml" and e s'
  assume "runner_inv (snd s)" "runner_work e s = Inr s'"
  then show "runner_inv (snd s') \<and> progress (runner_tickets (snd s)) (runner_tickets (snd s'))"
    by (auto simp: runner_work_def cpp_bind_eq_Inr intro: runner_inv_worker_step tickets_worker_step)
next
  fix s :: "u64 \<times> AlgoRunnerIpml" and g resp s'
  assume "runner_inv (snd s)" "get_valid g" "runner_fetch g s = Inr (resp, s')"
  then show "runner_inv (snd s') \<and> (\<exists>t. progress (runner_tickets (snd s)) t \<and>
      spec_get (get_key g) t = (resp, runner_tickets (snd s')))"
    using runner_fetch_law runner_fetch_inv by blast
qed (rule ready_defined_runner)

section \<open>Returning and finishing\<close>

text \<open>No stored request has undefined arithmetic.\<close>

definition all_defined :: "AlgoRunnerIpml \<Rightarrow> bool" where
  "all_defined r \<longleftrightarrow> (\<forall>a job. heap r a = Some job \<longrightarrow> cpp_defined (compute (job_req job)))"

lemma all_defined_step: "all_defined r \<Longrightarrow> worker_step e r = Inr r' \<Longrightarrow> all_defined r'"
  by (cases e) (auto simp: all_defined_def elim!: worker_publish_Inr split: if_splits)

lemma holds_allocated: "runner_inv r \<Longrightarrow> holds r i a \<Longrightarrow> \<exists>job. heap r a = Some job"
  using inv_bound [of r a] inv_heap [of r] by (auto simp: in_flight_def)

lemma worker_publish_defined:
  assumes "runner_inv r" and "all_defined r"
  shows "\<exists>r'. worker_publish i r = Inr r'"
proof (cases "\<exists>a. holds r i a")
  case True
  then obtain a where a: "holds r i a" ..
  with holds_allocated [OF assms(1)] obtain job where job: "heap r a = Some job" by blast
  with assms(2) obtain st res where "compute (job_req job) = Inr (st, res)"
    unfolding all_defined_def cpp_defined_def by (metis surj_pair)
  with a job show ?thesis by (simp add: worker_publish_def holds_def)
next
  case False
  then show ?thesis by (auto simp: worker_publish_def holds_def split: option.split)
qed

lemma worker_step_defined: "runner_inv r \<Longrightarrow> all_defined r \<Longrightarrow> \<exists>r'. worker_step e r = Inr r'"
  using worker_publish_defined by (cases e) auto

lemma run_workers_defined:
  "runner_inv r \<Longrightarrow> all_defined r \<Longrightarrow> \<exists>r'. run_workers es r = Inr r' \<and> runner_inv r' \<and> all_defined r'"
proof (induction es arbitrary: r)
  case (Cons e es)
  obtain r1 where r1: "worker_step e r = Inr r1" using worker_step_defined Cons.prems by blast
  with Cons.prems have "runner_inv r1" "all_defined r1"
    using runner_inv_worker_step all_defined_step by blast+
  then show ?case using Cons.IH r1 by simp
qed simp

lemma wait_loop_returns:
  assumes "runner_inv r" and "all_defined r" and "timeout \<noteq> 0 \<or> (\<exists>x \<in> set script. snd x \<noteq> 0)"
  shows "\<exists>r'. wait_loop a timeout script r = Inr r' \<and> runner_inv r'"
  using assms
proof (induction a timeout script r rule: wait_loop.induct)
  case (2 a timeout ws ret script r)
  show ?case
  proof (cases "\<not> is_done r a \<and> timeout = 0")
    case True
    obtain r1 where r1: "run_workers ws r = Inr r1" "runner_inv r1" "all_defined r1"
      using run_workers_defined 2(2,3) by blast
    moreover have "ret \<noteq> 0 \<or> (\<exists>x \<in> set script. snd x \<noteq> 0)" using 2(4) True by auto
    ultimately show ?thesis using 2(1) [OF True r1(2,3)] True by simp
  next
    case False
    then have "wait_loop a timeout ((ws, ret) # script) r = Inr r" by (simp only: wait_loop.simps if_False)
    with 2(2) show ?thesis by blast
  qed
qed simp

lemma collect_job_returns:
  assumes "runner_inv r" and "jobs r jid = Some a"
  shows "\<exists>resp r'. collect_job jid a response r = Inr (EC_SUCCESS, resp, r')"
  using inv_table [OF assms] by (auto simp: collect_job_def)

subsection \<open>Working off the queue\<close>

lemma run_workers_append: "run_workers (es @ fs) r = cpp_bind (run_workers es r) (run_workers fs)"
proof (induction es arbitrary: r)
  case (Cons e es)
  then have "run_workers (es @ fs) = (\<lambda>r. cpp_bind (run_workers es r) (run_workers fs))" by auto
  then show ?case by (simp add: cpp_bind_assoc)
qed simp

lemma publish_empties:
  assumes "worker_publish i r = Inr r'" and "i < length (workers r)"
  shows "workers r' = (workers r)[i := None]" and "jobQueue r' = jobQueue r"
  using assms
proof (atomize (full), cases rule: worker_publish_Inr [OF assms(1)])
  case 1
  then have "workers r ! i = None" using assms(2) by (cases "workers r ! i") (auto simp: holds_def)
  with 1 show "workers r' = (workers r)[i := None] \<and> jobQueue r' = jobQueue r"
    by (metis list_update_id)
qed auto

lemma publish_all:
  assumes "runner_inv r" and "all_defined r" and "k \<le> length (workers r)"
  shows "\<exists>r'. run_workers (map Publish [0..<k]) r = Inr r' \<and> runner_inv r' \<and> all_defined r' \<and>
    length (workers r') = length (workers r) \<and> jobQueue r' = jobQueue r \<and>
    (\<forall>i < k. workers r' ! i = None)"
  using assms(3)
proof (induction k)
  case 0
  with assms show ?case by simp
next
  case (Suc k)
  then obtain r1 where r1: "run_workers (map Publish [0..<k]) r = Inr r1" "runner_inv r1"
      "all_defined r1" "length (workers r1) = length (workers r)" "jobQueue r1 = jobQueue r"
      "\<forall>i < k. workers r1 ! i = None" by auto
  obtain r2 where r2: "worker_publish k r1 = Inr r2" using worker_publish_defined r1(2,3) by blast
  have "run_workers (map Publish [0..<Suc k]) r = Inr r2"
    using r1(1) r2 by (simp add: run_workers_append)
  moreover have "runner_inv r2" "all_defined r2"
    using r1(2,3) r2 runner_inv_publish all_defined_step [of r1 "Publish k" r2] by auto
  moreover have "workers r2 = (workers r1)[k := None]" "jobQueue r2 = jobQueue r1"
    using publish_empties [OF r2] r1(4) Suc.prems by simp_all
  ultimately show ?case using r1 Suc.prems by (auto simp: nth_list_update less_Suc_eq)
qed

lemma work_off:
  assumes "runner_inv r" and "all_defined r" and "workers r \<noteq> []" and "\<forall>w \<in> set (workers r). w = None"
    and "running r"
  shows "\<exists>r'. run_workers (concat (replicate (length (jobQueue r)) [Take 0, Publish 0])) r = Inr r' \<and>
    runner_inv r' \<and> jobQueue r' = [] \<and> (\<forall>w \<in> set (workers r'). w = None)"
  using assms
proof (induction "length (jobQueue r)" arbitrary: r)
  case 0
  then show ?case by simp
next
  case (Suc n)
  then obtain a q where q: "jobQueue r = a # q" by (cases "jobQueue r") auto
  define r1 where "r1 = worker_take 0 r"
  have w0: "0 < length (workers r)" "workers r ! 0 = None" using Suc.prems(3,4) by auto
  with q have r1: "jobQueue r1 = q" "workers r1 = (workers r)[0 := Some a]"
    using Suc.prems(5) by (simp_all add: r1_def worker_take_def pop_job_def)
  have inv1: "runner_inv r1" "all_defined r1"
    using Suc.prems(1,2) runner_inv_take all_defined_step [of r "Take 0" r1] by (simp_all add: r1_def)
  obtain r2 where r2: "worker_publish 0 r1 = Inr r2" using worker_publish_defined inv1 by blast
  have inv2: "runner_inv r2" "all_defined r2"
    using inv1 r2 runner_inv_publish all_defined_step [of r1 "Publish 0" r2] by auto
  have w2: "workers r2 = (workers r)[0 := None]" "jobQueue r2 = q"
    using publish_empties [OF r2] w0 r1 by simp_all
  then have "\<forall>w \<in> set (workers r2). w = None"
    using Suc.prems(4) set_update_subset_insert [of "workers r" 0 None] by auto
  moreover have "workers r2 \<noteq> []" using w2 Suc.prems(3) by simp
  moreover have "running r2"
    using worker_step_table [of "Publish 0" r1 r2] r2 Suc.prems(5) by (simp add: r1_def)
  ultimately obtain r3 where "run_workers (concat (replicate (length (jobQueue r2)) [Take 0, Publish 0])) r2
      = Inr r3" "runner_inv r3" "jobQueue r3 = []" "\<forall>w \<in> set (workers r3). w = None"
    using Suc.hyps(1) [of r2] Suc.hyps(2) inv2 w2(2) q by auto
  then show ?case using q r2 w2(2) by (simp add: r1_def [symmetric])
qed

lemma drain:
  assumes "runner_inv r" and "all_defined r" and "workers r \<noteq> []" and "running r"
  shows "\<exists>r'. run_workers (drain_schedule r) r = Inr r' \<and> runner_inv r' \<and> (\<forall>a. \<not> in_flight r' a)"
proof -
  obtain r1 where r1: "run_workers (map Publish [0..<length (workers r)]) r = Inr r1" "runner_inv r1"
      "all_defined r1" "length (workers r1) = length (workers r)" "jobQueue r1 = jobQueue r"
      "\<forall>i < length (workers r). workers r1 ! i = None"
    using publish_all [OF assms(1,2) order_refl] by auto
  have "workers r1 \<noteq> []" using r1(4) assms(3) by auto
  moreover have "running r1" using run_workers_table [OF r1(1)] assms(4) by simp
  moreover have "\<forall>w \<in> set (workers r1). w = None" using r1(4,6) by (auto simp: in_set_conv_nth)
  ultimately obtain r2 where
      r2: "run_workers (concat (replicate (length (jobQueue r1)) [Take 0, Publish 0])) r1 = Inr r2"
      "runner_inv r2" "jobQueue r2 = []" "\<forall>w \<in> set (workers r2). w = None"
    using work_off [OF r1(2,3)] by blast
  have "\<not> in_flight r2 a" for a using r2(3,4) by (fastforce simp: in_flight_def holds_def dest: nth_mem)
  then show ?thesis using r1(1,5) r2(1,2) by (simp add: drain_schedule_def run_workers_append)
qed




section \<open>Ticket numbers\<close>

lemma bit_make_ticket:
  "bit (make_ticket ts seq) n \<longleftrightarrow>
     n < 64 \<and> (if n < 16 then bit seq n else bit ts (n - 16))"
proof -
  have mask: "(0xFFFF :: u64) = mask 16" by (simp add: mask_eq_exp_minus_1)
  show ?thesis
    unfolding make_ticket_def mask using bit_imp_le_length [of seq n] by (auto simp: bit_simps)
qed

lemma make_ticket_eq_iff:
  "make_ticket ts seq = make_ticket ts' seq' \<longleftrightarrow>
     take_bit 48 ts = take_bit 48 ts' \<and> take_bit 16 seq = take_bit 16 seq'" (is "?l \<longleftrightarrow> ?r")
proof
  assume ?l
  then have same: "bit (make_ticket ts seq) n = bit (make_ticket ts' seq') n" for n by simp
  have "bit (take_bit 48 ts) n = bit (take_bit 48 ts') n" for n
    using same [of "n + 16"] by (auto simp: bit_make_ticket bit_simps)
  moreover have "bit (take_bit 16 seq) n = bit (take_bit 16 seq') n" for n
    using same [of n] by (auto simp: bit_make_ticket bit_simps)
  ultimately show ?r by (simp add: bit_eq_iff)
next
  assume r: ?r
  then have "bit (take_bit 48 ts) n = bit (take_bit 48 ts') n"
      "bit (take_bit 16 seq) n = bit (take_bit 16 seq') n" for n by simp_all
  then have ts: "n < 48 \<Longrightarrow> bit ts n = bit ts' n" and seq: "n < 16 \<Longrightarrow> bit seq n = bit seq' n" for n
    by (auto simp: bit_simps)
  have "bit (make_ticket ts seq) n = bit (make_ticket ts' seq') n" for n
    using ts [of "n - 16"] seq [of n] by (auto simp: bit_make_ticket)
  then show ?l by (simp add: bit_eq_iff)
qed

section \<open>Properties\<close>

lemma one_job_runner_eq:
  "one_job_runner =
     \<lparr>jobs = [327680 \<mapsto> 0], jobQueue = [0], workers = [None], maxThreads = 1, running = True,
      heap = [0 \<mapsto> Job_default\<lparr>job_id := 327680, job_req := sum_request 2 3\<rparr>], next_addr = 1\<rparr>"
  by (simp add: one_job_runner_def impl_enqueue_def AlgoRunnerIpml_new_def Let_def make_ticket_def)

lemma sum_request_2_3: "compute (sum_request 2 3) = Inr (ST_SUCCESS, Some (int_result 5))"
  by (simp add: compute_def sum_request_def add_i32_def in_i32_def)

lemma one_job_runner_ok: "runner_inv one_job_runner" "all_defined one_job_runner"
proof -
  have "impl_init [True] (AlgoRunnerIpml_new 1) =
      Inr (EC_SUCCESS, (AlgoRunnerIpml_new 1)\<lparr>running := True, workers := [None]\<rparr>)"
    by (simp add: impl_init_def AlgoRunnerIpml_new_def)
  then have "runner_inv ((AlgoRunnerIpml_new 1)\<lparr>running := True, workers := [None]\<rparr>)"
    by (intro runner_inv_init [OF runner_inv_new]) (simp_all add: AlgoRunnerIpml_new_def)
  then show "runner_inv one_job_runner"
    unfolding one_job_runner_def by (metis prod.collapse runner_inv_enqueue)
  show "all_defined one_job_runner"
    by (simp add: all_defined_def one_job_runner_eq sum_request_2_3)
qed

text \<open>A submission, the workers until they are out of work, and the collection of its result.\<close>

lemma all_defined_enqueue:
  "all_defined r \<Longrightarrow> cpp_defined (compute req) \<Longrightarrow> impl_enqueue ts seq req r = (jid, seq', r') \<Longrightarrow> all_defined r'"
  by (auto simp: all_defined_def impl_enqueue_def Let_def split: if_splits)

lemma submit_drain_get:
  assumes inv: "runner_inv r" and "all_defined r" and "workers r \<noteq> []" and "running r"
    and req: "compute req = Inr (st, res)" and enq: "impl_enqueue ts seq req r = (jid, seq', r1)"
  shows "\<exists>r2. run_workers (drain_schedule r1) r1 = Inr r2 \<and>
    (\<forall>now script g. greq_id g = jid \<longrightarrow> greq_wait_mode g = NO_WAIT \<longrightarrow>
      (\<exists>r3. impl_get now script g GetResponse_default r2 =
        Inr (EC_SUCCESS, \<lparr>gresp_status = st, gresp_result = Some res\<rparr>, r3)))"
proof -
  have inv1: "runner_inv r1" using runner_inv_enqueue [OF inv enq] .
  have "all_defined r1" using all_defined_enqueue [OF assms(2) _ enq] req by (simp add: cpp_defined_def)
  moreover have "workers r1 \<noteq> []" "running r1" using enq assms(3,4) by (auto simp: impl_enqueue_def Let_def)
  ultimately obtain r2 where r2: "run_workers (drain_schedule r1) r1 = Inr r2" "runner_inv r2" "\<forall>a. \<not> in_flight r2 a"
    using drain [OF inv1] by blast
  have pend: "runner_tickets r1 jid = Some (Pending req)" using tickets_enqueue [OF inv enq] by simp
  then obtain a where "jobs r1 jid = Some a" by (auto simp: runner_tickets_def split: option.splits)
  then have a: "jobs r2 jid = Some a" using run_workers_table [OF r2(1)] by simp
  then obtain job where job: "heap r2 a = Some job" using inv_table [OF r2(2)] by blast
  have fin: "job_done job" using inv_done [OF r2(2) job] r2(3) by simp
  have "job_req job = req"
    using tickets_run_workers [OF inv1 r2(1)] pend a job fin
    by (auto simp: progress_def runner_tickets_def dest: spec [of _ jid])
  with inv_outcome [OF r2(2) a job fin] req have "job_status job = st" "job_result job = res" by simp_all
  with a job fin have "greq_id g = jid \<Longrightarrow> greq_wait_mode g = NO_WAIT \<Longrightarrow>
      \<exists>r3. impl_get now script g GetResponse_default r2 =
        Inr (EC_SUCCESS, \<lparr>gresp_status = st, gresp_result = Some res\<rparr>, r3)" for now script g
    by (simp add: impl_get_def findJobById_def collect_job_def GetResponse_default_def)
  with r2(1) show ?thesis by blast
qed

text \<open>A blocking submission computes its request and touches neither the table nor the queue.\<close>

lemma impl_run_blocking:
  assumes "sreq_mode request = BLOCKING"
  shows "impl_run site ts seq request SubmitResponse_default r =
    cpp_bind (compute request) (\<lambda>(st, res).
      Inr (EC_SUCCESS, \<lparr>sresp_status = st, sresp_ticket = None, sresp_result = Some res\<rparr>,
        if sreq_payload request = None then no_output else PRINT_ERROR_NO_RET (Ipc_status st) site,
        seq, r))"
  using assms
  by (auto simp: impl_run_def compute_def SubmitResponse_default_def cpp_bind_def Let_def
      simp del: runMath.simps runStr.simps split: option.split Payload.split sum.split prod.split)

text \<open>
  C2: over any sequence of submissions, collections and worker activity from a fresh runner, the
  answer to a collection is determined by the caller's own history. An unknown or already collected
  ticket is refused; a known one is answered either as unfinished or with exactly the status and the
  result of the request it was issued for.
\<close>

theorem ticket_answers_correct:
  assumes "impl_init created (AlgoRunnerIpml_new threads) = Inr (rc, r0)"
    and "svc_exec runner_submit runner_work runner_fetch es (seq, r0) = Inr (anss, s1)"
    and "\<forall>e \<in> set es. \<forall>g. e = Ev_get g \<longrightarrow> get_valid g" and "get_valid g"
    and "runner_fetch g s1 = Inr (resp, s2)"
  shows "case outstanding get_key es anss (get_key g) of
      None \<Rightarrow> resp = \<lparr>gresp_status = ST_ERROR_INVALID_INPUT, gresp_result = None\<rparr>
    | Some req \<Rightarrow> resp = \<lparr>gresp_status = ST_NOT_FINISHED, gresp_result = None\<rparr> \<or>
        (\<exists>st res. compute req = Inr (st, res) \<and> resp = \<lparr>gresp_status = st, gresp_result = Some res\<rparr>)"
proof (rule rt.answer_after_trace [OF _ _ assms(3,4,2,5)])
  show "runner_inv (snd (seq, r0))"
    using runner_inv_init [OF runner_inv_new _ assms(1)] by (simp add: AlgoRunnerIpml_new_def)
  show "runner_tickets (snd (seq, r0)) = Map.empty"
    using assms(1)
    by (auto simp: impl_init_def AlgoRunnerIpml_new_def runner_tickets_def fun_eq_iff split: if_splits)
qed

theorem ticket_answers_correct_witness:
  "\<exists>r0 anss s1 resp s2.
     impl_init [True] (AlgoRunnerIpml_new 1) = Inr (EC_SUCCESS, r0) \<and>
     svc_exec runner_submit runner_work runner_fetch
       [Ev_submit 5 (sum_request 2 3), Ev_work (Take 0), Ev_work (Publish 0)] (0, r0) = Inr (anss, s1) \<and>
     runner_fetch (\<lparr>tv_sec = 0, tv_nsec = 0\<rparr>, [],
       GetRequest_default\<lparr>greq_ticket := Some \<lparr>req_id = 327680\<rparr>\<rparr>) s1 = Inr (resp, s2) \<and>
     gresp_result resp = Some (Some (int_result 5)) \<and>
     (\<exists>st res. compute (sum_request 2 3) = Inr (st, res) \<and>
        resp = \<lparr>gresp_status = st, gresp_result = Some res\<rparr>)"
proof -
  let ?es = "[Ev_submit (5 :: u64) (sum_request 2 3), Ev_work (Take 0), Ev_work (Publish 0)]"
  let ?g = "(\<lparr>tv_sec = 0, tv_nsec = 0\<rparr>, [], GetRequest_default\<lparr>greq_ticket := Some \<lparr>req_id = 327680\<rparr>\<rparr>)"
  note ev = impl_init_def AlgoRunnerIpml_new_def runner_submit_def runner_work_def runner_fetch_def
    impl_enqueue_def Let_def make_ticket_def worker_take_def pop_job_def worker_publish_def sum_request_def
    compute_def add_i32_def in_i32_def impl_get_def greq_id_def GetRequest_default_def
    findJobById_def collect_job_def GetResponse_default_def Job_default_def get_key_def get_valid_def
    outstanding_def
  have key: "get_key ?g = 327680" "get_valid ?g" by (simp_all add: ev)
  obtain r0 where r0: "impl_init [True] (AlgoRunnerIpml_new 1) = Inr (EC_SUCCESS, r0)"
      "r0 = (AlgoRunnerIpml_new 1)\<lparr>running := True, workers := [None]\<rparr>" by (simp add: ev)
  obtain anss s1 where s1: "svc_exec runner_submit runner_work runner_fetch ?es (0, r0) = Inr (anss, s1)"
      "anss = [A_ticket 327680, A_none, A_none]"
      "\<exists>resp s2. runner_fetch ?g s1 = Inr (resp, s2) \<and> gresp_result resp = Some (Some (int_result 5))"
    by (simp add: r0(2) ev)
  then obtain resp s2 where f: "runner_fetch ?g s1 = Inr (resp, s2)"
      "gresp_result resp = Some (Some (int_result 5))" by blast
  have "outstanding get_key ?es anss (get_key ?g) = Some (sum_request 2 3)"
    by (simp add: s1(2) key outstanding_def)
  with ticket_answers_correct [OF r0(1) s1(1) _ key(2) f(1)] f(2)
  have "\<exists>st res. compute (sum_request 2 3) = Inr (st, res) \<and>
      resp = \<lparr>gresp_status = st, gresp_result = Some res\<rparr>" by auto
  with r0(1) s1(1) f show ?thesis by blast
qed

text \<open>
  C8: the invariant of the runner (every job is in exactly one place, unfinished jobs have no outcome,
  finished jobs in the table carry the outcome of their own request) holds in a new runner and is kept
  by starting and stopping it, by every worker action, by a submission and by a collection, whatever the workers do
  during its wait.
\<close>

theorem runner_invariant_preserved:
  assumes "runner_inv r"
  shows "runner_inv (AlgoRunnerIpml_new threads) \<and>
    (\<forall>created rc r'. workers r = [] \<longrightarrow> impl_init created r = Inr (rc, r') \<longrightarrow> runner_inv r') \<and>
    (\<forall>st rc r'. impl_deinit st r = Inr (rc, r') \<longrightarrow> runner_inv r') \<and>
    (\<forall>i. runner_inv (worker_take_late i r)) \<and>
    (\<forall>e r'. worker_step e r = Inr r' \<longrightarrow> runner_inv r') \<and>
    (\<forall>site ts seq req resp0 rc resp out seq' r'.
       impl_run site ts seq req resp0 r = Inr (rc, resp, out, seq', r') \<longrightarrow> runner_inv r') \<and>
    (\<forall>now script req resp0 rc resp r'.
       impl_get now script req resp0 r = Inr (rc, resp, r') \<longrightarrow> runner_inv r')"
  using runner_inv_new runner_inv_init [OF assms] runner_inv_deinit [OF assms] runner_inv_take_late [OF assms]
    runner_inv_worker_step [OF assms]
    runner_inv_run [OF assms] runner_inv_get [OF assms] by blast

theorem runner_invariant_preserved_witness:
  "\<exists>r'. impl_init [True, False, True] (AlgoRunnerIpml_new 3) = Inr (EC_SUCCESS, r') \<and>
     length (workers r') = 2 \<and> runner_inv r'"
proof -
  have "workers (AlgoRunnerIpml_new 3) = []" by (simp add: AlgoRunnerIpml_new_def)
  moreover obtain r' where "impl_init [True, False, True] (AlgoRunnerIpml_new 3) = Inr (EC_SUCCESS, r')"
      "length (workers r') = 2" by (simp add: impl_init_def AlgoRunnerIpml_new_def numeral_3_eq_3)
  ultimately show ?thesis
    using runner_invariant_preserved [OF runner_inv_new [of 3], THEN conjunct2, THEN conjunct1, rule_format] by blast
qed

text \<open>
  C9: a result is handed out once. After a collection has returned a result for a ticket, any further
  collection with that ticket, in any mode, is refused as invalid and changes nothing.
\<close>

theorem result_collected_once:
  assumes "runner_inv r"
    and "impl_get now script request GetResponse_default r = Inr (rc, resp, r')"
    and "gresp_result resp \<noteq> None" and "greq_id request' = greq_id request"
  shows "impl_get now' script' request' response' r' =
    Inr (EC_SUCCESS, response'\<lparr>gresp_status := ST_ERROR_INVALID_INPUT\<rparr>, r')"
proof -
  have "jobs r' (greq_id request) = None"
    using assms(2)
  proof (cases rule: impl_get_Inr)
    case refused
    with assms(3) show ?thesis by (simp add: GetResponse_default_def)
  next
    case (collected a r1)
    with assms(3) show ?thesis
      by (auto simp: GetResponse_default_def elim!: collect_job_Inr)
  qed
  with assms(4) show ?thesis by (simp add: impl_get_def findJobById_def Let_def)
qed

theorem result_collected_once_witness:
  "\<exists>resp r'. impl_get \<lparr>tv_sec = 0, tv_nsec = 0\<rparr> [([Take 0, Publish 0], 0)] one_job_get
      GetResponse_default one_job_runner = Inr (EC_SUCCESS, resp, r') \<and>
    gresp_result resp = Some (Some (int_result 5)) \<and>
    impl_get \<lparr>tv_sec = 0, tv_nsec = 0\<rparr> [] one_job_get GetResponse_default r' =
      Inr (EC_SUCCESS, GetResponse_default\<lparr>gresp_status := ST_ERROR_INVALID_INPUT\<rparr>, r')"
proof -
  have "\<exists>resp r'. impl_get \<lparr>tv_sec = 0, tv_nsec = 0\<rparr> [([Take 0, Publish 0], 0)] one_job_get
      GetResponse_default one_job_runner = Inr (EC_SUCCESS, resp, r') \<and>
      gresp_result resp = Some (Some (int_result 5))"
    by (simp add: impl_get_def one_job_runner_eq one_job_get_def greq_id_def findJobById_def Let_def
        addMsToTimespec_def in_i64_def is_done_def Job_default_def worker_take_def pop_job_def
        worker_publish_def sum_request_2_3 collect_job_def)
  then show ?thesis using result_collected_once [OF one_job_runner_ok(1)] by fastforce
qed

text \<open>
  C15: a timed collection returns. If one of the timed waits reports a timeout (any non-zero value),
  the deadline can be computed and no stored request has undefined arithmetic, then the call returns
  success, whatever the workers do meanwhile and however often the wait is woken for nothing.
\<close>

theorem timed_get_returns:
  assumes "runner_inv r" and "all_defined r" and "\<exists>x \<in> set script. snd x \<noteq> 0"
    and "greq_wait_mode request = WAIT_UP_TO"
    and "cpp_defined (addMsToTimespec now (greq_timeout_ms request))"
  shows "\<exists>resp r'. impl_get now script request response r = Inr (EC_SUCCESS, resp, r')"
proof (cases "jobs r (greq_id request)")
  case None
  then show ?thesis by (simp add: impl_get_def findJobById_def Let_def)
next
  case (Some a)
  obtain r1 where r1: "wait_loop a 0 script r = Inr r1" "runner_inv r1"
    using wait_loop_returns [OF assms(1,2)] assms(3) by blast
  moreover have "jobs r1 = jobs r" using wait_loop_table [OF r1(1)] by simp
  ultimately obtain resp r2 where
      "collect_job (greq_id request) a response r1 = Inr (EC_SUCCESS, resp, r2)"
    using collect_job_returns [of r1 "greq_id request" a response] Some by auto
  moreover obtain ts where "addMsToTimespec now (greq_timeout_ms request) = Inr ts"
    using assms(5) by (auto simp: cpp_defined_def)
  ultimately show ?thesis
    using Some assms(4) r1(1) by (simp add: impl_get_def findJobById_def Let_def)
qed

theorem timed_get_returns_witness:
  "\<exists>resp r'. impl_get \<lparr>tv_sec = 0, tv_nsec = 0\<rparr> [([Take 0], 0), ([], 110)] one_job_get
     GetResponse_default one_job_runner = Inr (EC_SUCCESS, resp, r')"
  by (rule timed_get_returns [OF one_job_runner_ok])
    (simp_all add: one_job_get_def addMsToTimespec_def in_i64_def Let_def)



text \<open>
  C27: ticket numbers. Two submissions get the same ticket exactly when their clock readings agree in
  the low 48 bits and their counters agree in the low 16 bits. So distinct counters below 65536 give
  distinct tickets, but clock readings 78 hours apart are not told apart.
\<close>

theorem ticket_collision_iff:
  "make_ticket ts seq = make_ticket ts' seq' \<longleftrightarrow>
     unat ts mod 2 ^ 48 = unat ts' mod 2 ^ 48 \<and> unat seq mod 2 ^ 16 = unat seq' mod 2 ^ 16"
proof -
  have "take_bit n x = take_bit n y \<longleftrightarrow> unat x mod 2 ^ n = unat y mod 2 ^ n" for n and x y :: u64
  proof -
    have "take_bit n x = take_bit n y \<longleftrightarrow> unat (take_bit n x) = unat (take_bit n y)"
      by (auto intro: unsigned_word_eqI)
    also have "\<dots> \<longleftrightarrow> take_bit n (unat x) = take_bit n (unat y)" by (simp only: unsigned_take_bit_eq)
    finally show ?thesis by (simp only: take_bit_eq_mod [of n "unat _"])
  qed
  then show ?thesis by (simp only: make_ticket_eq_iff)
qed

end
