(* ===== verification/Worker_Pool.thy ===== *)
theory Worker_Pool
  imports Algo_Runner
begin

text \<open>
  The concurrency of \<^verbatim>\<open>src/sources/server/algorithm_runner.cpp\<close> in full: the worker
  threads of \<^verbatim>\<open>workerLoop\<close> and the main thread inside \<^verbatim>\<open>enqueue\<close>,
  \<^verbatim>\<open>get\<close> and \<^verbatim>\<open>deinit\<close>, each with a program counter, the queue mutex
  with its owner, and the condition variable \<^verbatim>\<open>qCv\<close> as the set of sleeping workers. One
  event is one atomic action of one thread, so every interleaving is a sequence of events. The
  theory shows that the critical sections of \<open>Algo_Runner\<close> are all there is to see, that the
  queue is never popped when empty, that no submitted job is forgotten while the pool runs, and that
  stopping the pool can hang.
\<close>

section \<open>Threads and state\<close>

datatype worker_pc =
    W_Top \<comment> \<open>at \<open>while (running.load())\<close>\<close>
  | W_Lock \<comment> \<open>acquiring \<open>qMtx\<close>, before the inner loop or on the way out of \<open>pthread_cond_wait\<close>\<close>
  | W_Test \<comment> \<open>owns \<open>qMtx\<close>, at \<open>while (running.load() && jobQueue.empty())\<close>\<close>
  | W_Sleep \<comment> \<open>owns \<open>qMtx\<close>, about to call \<open>pthread_cond_wait\<close>\<close>
  | W_Asleep \<comment> \<open>blocked on \<open>qCv\<close>\<close>
  | W_Check \<comment> \<open>owns \<open>qMtx\<close>, at \<open>if (running.load() == false && jobQueue.empty())\<close>\<close>
  | W_Pop \<comment> \<open>owns \<open>qMtx\<close>, at \<open>jobQueue.front()\<close>\<close>
  | W_Compute addr \<comment> \<open>has a job\<close>
  | W_Publish addr Status Result \<comment> \<open>has its outcome, about to lock the job\<close>
  | W_Exit

datatype main_pc =
    M_Idle
  | M_Push addr \<comment> \<open>\<open>enqueue\<close>: in the table, not yet in the queue\<close>
  | M_Signal \<comment> \<open>\<open>enqueue\<close>: before \<open>pthread_cond_signal\<close>\<close>
  | M_Wait u64 addr \<comment> \<open>\<open>get\<close>: in the timed wait\<close>
  | M_Take u64 addr \<comment> \<open>\<open>get\<close>: before reading \<open>done\<close>\<close>
  | M_Erase u64 \<comment> \<open>\<open>get\<close>: result swapped out, before \<open>jobs.erase\<close>\<close>
  | M_Broadcast \<comment> \<open>\<open>deinit\<close>: \<open>running\<close> cleared\<close>
  | M_Join nat \<comment> \<open>\<open>deinit\<close>: joining the worker with this index\<close>
  | M_Stopped

text \<open>
  The shared data are those of \<^typ>\<open>AlgoRunnerIpml\<close>; what the workers hold is in their
  program counters, so the field \<open>workers\<close> stays empty here.
\<close>

record pool =
  shared :: AlgoRunnerIpml
  pcs :: "worker_pc list"
  qOwner :: "nat option" \<comment> \<open>the worker that owns \<open>qMtx\<close>; the main thread's sections are single steps\<close>
  main :: main_pc

definition pool_start :: "int \<Rightarrow> nat \<Rightarrow> pool" where
  "pool_start threads n =
     \<lparr>shared = (AlgoRunnerIpml_new threads)\<lparr>running := True\<rparr>, pcs = replicate n W_Top,
      qOwner = None, main = M_Idle\<rparr>"

section \<open>One step of a worker\<close>

definition goto :: "nat \<Rightarrow> worker_pc \<Rightarrow> pool \<Rightarrow> pool" where
  "goto i pc p = p\<lparr>pcs := (pcs p)[i := pc]\<rparr>"

text \<open>\<^const>\<open>None\<close>: the thread is blocked or has ended.\<close>

definition workerLoop_step :: "nat \<Rightarrow> pool \<Rightarrow> pool cpp option" where
  "workerLoop_step i p =
     (if i < length (pcs p) then
        (case pcs p ! i of
           W_Top \<Rightarrow> Some (Inr (goto i (if running (shared p) then W_Lock else W_Exit) p))
         | W_Lock \<Rightarrow>
             (if qOwner p = None then Some (Inr (goto i W_Test (p\<lparr>qOwner := Some i\<rparr>))) else None)
         | W_Test \<Rightarrow>
             Some (Inr (goto i
               (if running (shared p) \<and> jobQueue (shared p) = [] then W_Sleep else W_Check) p))
         | W_Sleep \<Rightarrow> Some (Inr (goto i W_Asleep (p\<lparr>qOwner := None\<rparr>)))
         | W_Asleep \<Rightarrow> None
         | W_Check \<Rightarrow>
             (if \<not> running (shared p) \<and> jobQueue (shared p) = []
              then Some (Inr (goto i W_Exit (p\<lparr>qOwner := None\<rparr>)))
              else Some (Inr (goto i W_Pop p)))
         | W_Pop \<Rightarrow>
             (case jobQueue (shared p) of
                [] \<Rightarrow> Some (Inl Empty_Front)
              | a # q \<Rightarrow> Some (Inr (goto i (W_Compute a)
                  (p\<lparr>shared := (shared p)\<lparr>jobQueue := q\<rparr>, qOwner := None\<rparr>))))
         | W_Compute a \<Rightarrow>
             (case heap (shared p) a of
                None \<Rightarrow> Some (Inl Null_Deref)
              | Some job \<Rightarrow> Some (cpp_bind (compute (job_req job)) (\<lambda>(status, result).
                  Inr (goto i (W_Publish a status result) p))))
         | W_Publish a status result \<Rightarrow>
             (case heap (shared p) a of
                None \<Rightarrow> Some (Inl Null_Deref)
              | Some job \<Rightarrow> Some (Inr (goto i W_Top
                  (p\<lparr>shared := (shared p)\<lparr>heap := (heap (shared p))(a \<mapsto>
                      job\<lparr>job_status := status, job_result := result, job_done := True\<rparr>)\<rparr>\<rparr>))))
         | W_Exit \<Rightarrow> None)
      else None)"

section \<open>One step of the main thread\<close>

datatype pool_event =
    E_worker nat
  | E_spurious nat \<comment> \<open>a sleeping worker returns from \<open>pthread_cond_wait\<close> unsignalled\<close>
  | E_submit u64 u64 SubmitRequest \<comment> \<open>\<open>enqueue\<close>: clock, counter, request; up to the table entry\<close>
  | E_push
  | E_signal nat \<comment> \<open>the worker the signal wakes, if any sleeps\<close>
  | E_find u64 bool \<comment> \<open>\<open>get\<close>: ticket, and whether to wait\<close>
  | E_wait int \<comment> \<open>the loop test, with the last value of \<open>timeout\<close>\<close>
  | E_take
  | E_erase
  | E_stop
  | E_broadcast
  | E_join

definition enqueue_insert :: "u64 \<Rightarrow> u64 \<Rightarrow> SubmitRequest \<Rightarrow> pool \<Rightarrow> pool" where
  "enqueue_insert ts seq req p =
     (let r = shared p; a = next_addr r; jid = make_ticket ts seq;
          job = Job_default\<lparr>job_id := jid, job_req := req\<rparr>
      in p\<lparr>shared := r\<lparr>heap := (heap r)(a \<mapsto> job), next_addr := Suc a,
                       jobs := (jobs r)(jid \<mapsto> a)\<rparr>, main := M_Push a\<rparr>)"

definition wake :: "worker_pc \<Rightarrow> worker_pc" where
  "wake pc = (if pc = W_Asleep then W_Lock else pc)"

definition signal_step :: "nat \<Rightarrow> pool \<Rightarrow> pool option" where
  "signal_step i p =
     (if W_Asleep \<in> set (pcs p) then
        (if i < length (pcs p) \<and> pcs p ! i = W_Asleep
         then Some (goto i W_Lock (p\<lparr>main := M_Idle\<rparr>)) else None)
      else Some (p\<lparr>main := M_Idle\<rparr>))"

definition take_step :: "u64 \<Rightarrow> addr \<Rightarrow> pool \<Rightarrow> pool cpp" where
  "take_step jid a p =
     (case heap (shared p) a of
        None \<Rightarrow> Inl Null_Deref
      | Some job \<Rightarrow>
          if \<not> job_done job then Inr (p\<lparr>main := M_Idle\<rparr>)
          else Inr (p\<lparr>shared := (shared p)\<lparr>heap := (heap (shared p))(a \<mapsto> job\<lparr>job_result := None\<rparr>)\<rparr>,
                      main := M_Erase jid\<rparr>))"

text \<open>
  The other steps of the main thread: the push of \<^verbatim>\<open>enqueue\<close>, the lookup of
  \<^verbatim>\<open>get\<close>, one turn of its timed wait, its erase, and the three phases of
  \<^verbatim>\<open>deinit\<close>.
\<close>

definition push_step :: "pool \<Rightarrow> pool option" where
  "push_step p =
     (case main p of
        M_Push a \<Rightarrow>
          if qOwner p = None
          then Some (p\<lparr>shared := (shared p)\<lparr>jobQueue := jobQueue (shared p) @ [a]\<rparr>, main := M_Signal\<rparr>)
          else None
      | _ \<Rightarrow> None)"

definition find_step :: "u64 \<Rightarrow> bool \<Rightarrow> pool \<Rightarrow> pool option" where
  "find_step jid waiting p =
     (if main p = M_Idle then
        (case jobs (shared p) jid of
           None \<Rightarrow> Some p
         | Some a \<Rightarrow> Some (p\<lparr>main := if waiting then M_Wait jid a else M_Take jid a\<rparr>))
      else None)"

definition wait_step :: "int \<Rightarrow> pool \<Rightarrow> pool option" where
  "wait_step timeout p =
     (case main p of
        M_Wait jid a \<Rightarrow>
          if \<not> is_done (shared p) a \<and> timeout = 0 then Some p
          else Some (p\<lparr>main := M_Take jid a\<rparr>)
      | _ \<Rightarrow> None)"

definition erase_step :: "pool \<Rightarrow> pool option" where
  "erase_step p =
     (case main p of
        M_Erase jid \<Rightarrow>
          Some (p\<lparr>shared := (shared p)\<lparr>jobs := (jobs (shared p))(jid := None)\<rparr>, main := M_Idle\<rparr>)
      | _ \<Rightarrow> None)"

definition stop_step :: "pool \<Rightarrow> pool option" where
  "stop_step p =
     (if main p = M_Idle
      then Some (p\<lparr>shared := (shared p)\<lparr>running := False\<rparr>, main := M_Broadcast\<rparr>) else None)"

definition broadcast_step :: "pool \<Rightarrow> pool option" where
  "broadcast_step p =
     (if main p = M_Broadcast then Some (p\<lparr>pcs := map wake (pcs p), main := M_Join 0\<rparr>) else None)"

definition join_step :: "pool \<Rightarrow> pool option" where
  "join_step p =
     (case main p of
        M_Join k \<Rightarrow>
          if k \<ge> length (pcs p) then Some (p\<lparr>main := M_Stopped\<rparr>)
          else if pcs p ! k = W_Exit then Some (p\<lparr>main := M_Join (Suc k)\<rparr>)
          else None
      | _ \<Rightarrow> None)"

text \<open>One event of the whole pool; \<^const>\<open>None\<close> when it is not enabled.\<close>

fun pool_step :: "pool_event \<Rightarrow> pool \<Rightarrow> pool cpp option" where
  "pool_step (E_worker i) p = workerLoop_step i p"
| "pool_step (E_spurious i) p =
     (if i < length (pcs p) \<and> pcs p ! i = W_Asleep then Some (Inr (goto i W_Lock p)) else None)"
| "pool_step (E_submit ts seq req) p =
     (if main p = M_Idle then Some (Inr (enqueue_insert ts seq req p)) else None)"
| "pool_step E_push p = map_option Inr (push_step p)"
| "pool_step (E_signal i) p =
     (if main p = M_Signal then map_option Inr (signal_step i p) else None)"
| "pool_step (E_find jid waiting) p = map_option Inr (find_step jid waiting p)"
| "pool_step (E_wait timeout) p = map_option Inr (wait_step timeout p)"
| "pool_step E_take p = (case main p of M_Take jid a \<Rightarrow> Some (take_step jid a p) | _ \<Rightarrow> None)"
| "pool_step E_erase p = map_option Inr (erase_step p)"
| "pool_step E_stop p = map_option Inr (stop_step p)"
| "pool_step E_broadcast p = map_option Inr (broadcast_step p)"
| "pool_step E_join p = map_option Inr (join_step p)"

lemmas main_steps [simp] =
  push_step_def find_step_def wait_step_def erase_step_def stop_step_def broadcast_step_def join_step_def

text \<open>The states a pool of \<open>n\<close> threads can get into.\<close>

inductive pool_reach :: "int \<Rightarrow> nat \<Rightarrow> pool \<Rightarrow> bool" for threads n where
  start: "pool_reach threads n (pool_start threads n)"
| step: "pool_reach threads n p \<Longrightarrow> pool_step e p = Some (Inr p') \<Longrightarrow> pool_reach threads n p'"

text \<open>Running a list of events; \<^const>\<open>None\<close> when one of them is not enabled.\<close>

fun pool_exec :: "pool_event list \<Rightarrow> pool \<Rightarrow> pool cpp option" where
  "pool_exec [] p = Some (Inr p)"
| "pool_exec (e # es) p =
     (case pool_step e p of
        None \<Rightarrow> None
      | Some (Inl h) \<Rightarrow> Some (Inl h)
      | Some (Inr p') \<Rightarrow> pool_exec es p')"

text \<open>A run in which the running flag is cleared between a worker's test and its sleep.\<close>

definition hang_trace :: "pool_event list" where
  "hang_trace = [E_worker 0, E_worker 0, E_worker 0, E_stop, E_broadcast, E_worker 0]"

section \<open>The view at the granularity of critical sections\<close>

fun held :: "worker_pc \<Rightarrow> addr option" where
  "held (W_Compute a) = Some a"
| "held (W_Publish a st res) = Some a"
| "held _ = None"

fun pushing :: "main_pc \<Rightarrow> addr list" where
  "pushing (M_Push a) = [a]"
| "pushing _ = []"

fun erase_pending :: "main_pc \<Rightarrow> (u64 \<rightharpoonup> addr) \<Rightarrow> (u64 \<rightharpoonup> addr)" where
  "erase_pending (M_Erase jid) m = m(jid := None)"
| "erase_pending _ m = m"

text \<open>
  A job counts as queued from its table entry on, and a ticket as erased from the moment its result
  has been swapped out.
\<close>

definition view :: "pool \<Rightarrow> AlgoRunnerIpml" where
  "view p =
     (shared p)\<lparr>jobs := erase_pending (main p) (jobs (shared p)),
       jobQueue := jobQueue (shared p) @ pushing (main p),
       workers := map held (pcs p)\<rparr>"

section \<open>The invariant of the pool\<close>

definition owns_queue :: "worker_pc \<Rightarrow> bool" where
  "owns_queue pc \<longleftrightarrow> pc \<in> {W_Test, W_Sleep, W_Check, W_Pop}"

text \<open>What each program counter knows of the shared data.\<close>

definition pc_ok :: "AlgoRunnerIpml \<Rightarrow> worker_pc \<Rightarrow> bool" where
  "pc_ok r pc \<longleftrightarrow>
     (case pc of
        W_Sleep \<Rightarrow> jobQueue r = []
      | W_Check \<Rightarrow> jobQueue r \<noteq> [] \<or> \<not> running r
      | W_Pop \<Rightarrow> jobQueue r \<noteq> []
      | W_Publish a st res \<Rightarrow> (\<exists>job. heap r a = Some job \<and> compute (job_req job) = Inr (st, res))
      | W_Exit \<Rightarrow> \<not> running r
      | _ \<Rightarrow> True)"

definition main_ok :: "AlgoRunnerIpml \<Rightarrow> main_pc \<Rightarrow> bool" where
  "main_ok r m \<longleftrightarrow>
     (case m of
        M_Wait jid a \<Rightarrow> jobs r jid = Some a
      | M_Take jid a \<Rightarrow> jobs r jid = Some a
      | M_Broadcast \<Rightarrow> \<not> running r
      | M_Join k \<Rightarrow> \<not> running r
      | M_Stopped \<Rightarrow> \<not> running r
      | _ \<Rightarrow> True)"

text \<open>A worker is in its critical section exactly when it owns the mutex.\<close>

definition lock_inv :: "pool \<Rightarrow> bool" where
  "lock_inv p \<longleftrightarrow>
     (\<forall>i < length (pcs p). owns_queue (pcs p ! i) \<longleftrightarrow> qOwner p = Some i) \<and>
     (\<forall>i. qOwner p = Some i \<longrightarrow> i < length (pcs p))"

definition pcs_inv :: "pool \<Rightarrow> bool" where
  "pcs_inv p \<longleftrightarrow> (\<forall>i < length (pcs p). pc_ok (shared p) (pcs p ! i))"

text \<open>If jobs are queued and everyone sleeps, a signal is on its way.\<close>

definition wake_inv :: "pool \<Rightarrow> bool" where
  "wake_inv p \<longleftrightarrow>
     (jobQueue (shared p) \<noteq> [] \<longrightarrow> pcs p \<noteq> [] \<longrightarrow> set (pcs p) \<subseteq> {W_Asleep} \<longrightarrow> main p = M_Signal)"

definition pool_inv :: "pool \<Rightarrow> bool" where
  "pool_inv p \<longleftrightarrow> lock_inv p \<and> pcs_inv p \<and> main_ok (shared p) (main p) \<and> wake_inv p \<and>
     runner_inv (view p)"

section \<open>Simulation\<close>

text \<open>The steps of the coarser model.\<close>

inductive view_step :: "AlgoRunnerIpml \<Rightarrow> AlgoRunnerIpml \<Rightarrow> bool" where
  stutter: "view_step r r"
| take: "view_step r (worker_take i r)"
| late_take: "view_step r (worker_take_late i r)"
| publish: "worker_publish i r = Inr r' \<Longrightarrow> view_step r r'"
| submit: "impl_enqueue ts seq req r = (jid, seq', r') \<Longrightarrow> view_step r r'"
| collect: "jobs r jid = Some a \<Longrightarrow> collect_job jid a GetResponse_default r = Inr (rc, resp, r') \<Longrightarrow>
    view_step r r'"
| stop: "view_step r (r\<lparr>running := False\<rparr>)"

lemma view_step_inv: "view_step r r' \<Longrightarrow> runner_inv r \<Longrightarrow> runner_inv r'"
  by (induction rule: view_step.induct) (auto intro: inv_pres runner_inv_stop)

lemma view_goto: "view (goto i pc p) = (view p)\<lparr>workers := (workers (view p))[i := held pc]\<rparr>"
  by (simp add: view_def goto_def map_update)

lemma view_goto_same:
  assumes "i < length (pcs p)" "held pc = held (pcs p ! i)"
  shows "view (goto i pc p) = view p"
proof -
  have "(map held (pcs p))[i := held pc] = map held (pcs p)"
    using assms by (metis list_update_id nth_map)
  then show ?thesis by (simp add: view_def goto_def map_update)
qed

lemma view_qOwner [simp]: "view (p\<lparr>qOwner := q\<rparr>) = view p"
  by (simp add: view_def)

lemma view_simps [simp]:
  "heap (view p) = heap (shared p)" "next_addr (view p) = next_addr (shared p)"
  "running (view p) = running (shared p)" "workers (view p) = map held (pcs p)"
  "jobQueue (view p) = jobQueue (shared p) @ pushing (main p)"
  "jobs (view p) = erase_pending (main p) (jobs (shared p))"
  by (simp_all add: view_def)

lemma pcs_invD: "pcs_inv p \<Longrightarrow> i < length (pcs p) \<Longrightarrow> pcs p ! i = pc \<Longrightarrow> pc_ok (shared p) pc"
  by (auto simp: pcs_inv_def)

lemma view_worker:
  assumes "pcs_inv p" and "workerLoop_step i p = Some (Inr p')"
  shows "view_step (view p) (view p')"
proof -
  have i: "i < length (pcs p)" using assms(2) by (simp add: workerLoop_step_def split: if_splits)
  note st = assms(2) [unfolded workerLoop_step_def if_P [OF i]]
  show ?thesis
  proof (cases "pcs p ! i")
    case W_Pop
    with st obtain a q where q: "jobQueue (shared p) = a # q"
        "p' = goto i (W_Compute a) (p\<lparr>shared := (shared p)\<lparr>jobQueue := q\<rparr>, qOwner := None\<rparr>)"
      by (auto split: list.splits)
    have pop: "view p' = pop_job i (view p)"
      using i W_Pop q by (simp add: view_goto pop_job_def) (simp add: view_def)
    show ?thesis
    proof (cases "running (view p)")
      case True
      with pop have "view p' = worker_take i (view p)" by (simp add: worker_take_def)
      then show ?thesis by (simp add: view_step.take)
    next
      case False
      with pop have "view p' = worker_take_late i (view p)" by (simp add: worker_take_late_def)
      then show ?thesis by (simp add: view_step.late_take)
    qed
  next
    case (W_Publish a status result)
    obtain job where job: "heap (shared p) a = Some job"
        "compute (job_req job) = Inr (status, result)"
      using pcs_invD [OF assms(1) i W_Publish] by (auto simp: pc_ok_def)
    with st W_Publish have "worker_publish i (view p) = Inr (view p')"
      using i by (simp add: worker_publish_def) (auto simp: view_def goto_def map_update)
    then show ?thesis by (rule view_step.publish)
  qed (use i st in \<open>auto simp: view_goto_same cpp_bind_eq_Inr intro: view_step.stutter
      split: if_splits option.splits\<close>)
qed

lemma view_main:
  assumes "pool_inv p" and "pool_step e p = Some (Inr p')" and "\<And>i. e \<noteq> E_worker i"
  shows "view_step (view p) (view p')"
proof (cases e)
  case (E_submit ts seq req)
  with assms(2) have p': "p' = enqueue_insert ts seq req p" "main p = M_Idle"
    by (auto split: if_splits)
  then have "impl_enqueue ts seq req (view p) = (make_ticket ts seq, seq + 1, view p')"
    by (simp add: impl_enqueue_def enqueue_insert_def view_def Let_def)
  then show ?thesis by (rule view_step.submit)
next
  case E_take
  with assms(2) obtain jid a where m: "main p = M_Take jid a" "take_step jid a p = Inr p'"
    by (auto split: main_pc.splits)
  with assms(1) have tab: "jobs (view p) jid = Some a"
    by (simp add: pool_inv_def main_ok_def view_def)
  have "\<exists>resp. collect_job jid a GetResponse_default (view p) = Inr (EC_SUCCESS, resp, view p')"
    using m by (auto simp: take_step_def collect_job_def view_def GetResponse_default_def
        split: option.splits if_splits)
  with tab show ?thesis by (blast intro: view_step.collect)
next
  case E_stop
  with assms(2) have "view p' = (view p)\<lparr>running := False\<rparr>"
    by (auto simp: view_def split: if_splits)
  then show ?thesis by (simp add: view_step.stop)
next
  case (E_worker i)
  with assms(3) show ?thesis by blast
next
  case (E_signal i)
  with assms(2) have "view p' = view p"
    by (auto simp: signal_step_def view_goto_same split: if_splits) (auto simp: view_def view_goto_same)
  then show ?thesis by (simp add: view_step.stutter)
next
  case E_broadcast
  have "held (wake pc) = held pc" for pc by (cases pc) (auto simp: wake_def)
  with E_broadcast assms(2) have "view p' = view p"
    by (auto simp: view_def split: if_splits)
  then show ?thesis by (simp add: view_step.stutter)
next
  case (E_spurious i)
  with assms(2) have "view p' = view p" by (auto simp: view_goto_same split: if_splits)
  then show ?thesis by (simp add: view_step.stutter)
qed (use assms(2) in \<open>auto simp: view_def intro: view_step.stutter
      split: if_splits option.splits main_pc.splits\<close>)

lemma view_simulates:
  assumes "pool_inv p" and "pool_step e p = Some (Inr p')"
  shows "view_step (view p) (view p')"
proof (cases "\<exists>i. e = E_worker i")
  case True
  with assms show ?thesis by (auto simp: pool_inv_def intro: view_worker)
next
  case False
  with assms show ?thesis by (intro view_main) auto
qed

section \<open>Every step keeps the invariant\<close>

lemma goto_simps [simp]:
  "shared (goto i pc p) = shared p" "qOwner (goto i pc p) = qOwner p" "main (goto i pc p) = main p"
  "length (pcs (goto i pc p)) = length (pcs p)"
  by (simp_all add: goto_def)

lemma nth_goto: "j < length (pcs p) \<Longrightarrow> pcs (goto i pc p) ! j = (if i = j then pc else pcs p ! j)"
  by (simp add: goto_def nth_list_update)

lemma owns_queue_simps [simp]:
  "owns_queue W_Test" "owns_queue W_Sleep" "owns_queue W_Check" "owns_queue W_Pop"
  "\<not> owns_queue W_Top" "\<not> owns_queue W_Lock" "\<not> owns_queue W_Asleep" "\<not> owns_queue W_Exit"
  "\<not> owns_queue (W_Compute a)" "\<not> owns_queue (W_Publish a st res)"
  by (simp_all add: owns_queue_def)

lemma wake_owns [simp]: "owns_queue (wake pc) \<longleftrightarrow> owns_queue pc"
  by (simp add: wake_def owns_queue_def)

lemma lock_inv_frame [simp]:
  "lock_inv (p\<lparr>shared := r\<rparr>) = lock_inv p" "lock_inv (p\<lparr>main := m\<rparr>) = lock_inv p"
  by (simp_all add: lock_inv_def)

lemma lock_inv_goto:
  assumes "lock_inv p" and "i < length (pcs p)" and "owns_queue pc \<longleftrightarrow> owns_queue (pcs p ! i)"
  shows "lock_inv (goto i pc p)"
  using assms by (auto simp: lock_inv_def nth_goto)

lemma lock_inv_acquire:
  assumes "lock_inv p" and "i < length (pcs p)" and "qOwner p = None" and "owns_queue pc"
  shows "lock_inv (goto i pc (p\<lparr>qOwner := Some i\<rparr>))"
  using assms by (auto simp: lock_inv_def nth_goto)

lemma lock_inv_release:
  assumes "lock_inv p" and "i < length (pcs p)" and "owns_queue (pcs p ! i)" and "\<not> owns_queue pc"
  shows "lock_inv (goto i pc (p\<lparr>qOwner := None\<rparr>))"
proof -
  from assms(1-3) have "\<not> owns_queue (pcs p ! j)" if "j < length (pcs p)" "j \<noteq> i" for j
    using that by (auto simp: lock_inv_def)
  with assms(4) show ?thesis by (auto simp: lock_inv_def nth_goto)
qed

lemmas lock_inv_moves = lock_inv_goto lock_inv_acquire lock_inv_release

lemma lock_inv_worker:
  assumes "lock_inv p" and "workerLoop_step i p = Some (Inr p')"
  shows "lock_inv p'"
proof -
  have i: "i < length (pcs p)" using assms(2) by (simp add: workerLoop_step_def split: if_splits)
  note st = assms(2) [unfolded workerLoop_step_def if_P [OF i]]
  show ?thesis
  proof (cases "pcs p ! i")
    case W_Pop
    then obtain a q where "p' = goto i (W_Compute a) (p\<lparr>shared := (shared p)\<lparr>jobQueue := q\<rparr>, qOwner := None\<rparr>)"
      using st by (auto split: list.splits)
    then show ?thesis
      using lock_inv_release [of "p\<lparr>shared := (shared p)\<lparr>jobQueue := q\<rparr>\<rparr>" i "W_Compute a"]
        assms(1) i W_Pop by simp
  qed (use i st assms(1) in \<open>auto simp: cpp_bind_eq_Inr lock_inv_moves split: if_splits option.splits\<close>)
qed

lemma lock_inv_step:
  assumes "lock_inv p" and "pool_step e p = Some (Inr p')"
  shows "lock_inv p'"
proof (cases e)
  case (E_worker i)
  with assms show ?thesis by (auto intro: lock_inv_worker)
next
  case E_broadcast
  with assms show ?thesis by (auto simp: lock_inv_def split: if_splits)
qed (use assms in \<open>auto simp: lock_inv_moves enqueue_insert_def Let_def signal_step_def take_step_def
    split: if_splits option.splits main_pc.splits\<close>)

text \<open>Outside the mutex a program counter knows only what nobody undoes.\<close>

definition heap_ext :: "AlgoRunnerIpml \<Rightarrow> AlgoRunnerIpml \<Rightarrow> bool" where
  "heap_ext r r' \<longleftrightarrow> (\<forall>a job. heap r a = Some job \<longrightarrow>
     (\<exists>job'. heap r' a = Some job' \<and> job_req job' = job_req job))"

lemma pc_ok_frame:
  assumes "pc_ok r pc" and "heap_ext r r'" and "running r' \<longrightarrow> running r"
    and "owns_queue pc \<Longrightarrow> jobQueue r' = jobQueue r"
  shows "pc_ok r' pc"
  using assms by (cases pc) (fastforce simp: pc_ok_def heap_ext_def)+

lemma heap_ext_refl [simp]: "heap r' = heap r \<Longrightarrow> heap_ext r r'"
  by (simp add: heap_ext_def)

text \<open>A worker changes only its own program counter, and the queue only inside the mutex.\<close>

lemma worker_effect:
  assumes "workerLoop_step i p = Some (Inr p')"
  shows "i < length (pcs p)" and "\<exists>pc. pcs p' = (pcs p)[i := pc]"
    and "heap_ext (shared p) (shared p')" and "running (shared p') = running (shared p)"
    and "owns_queue (pcs p ! i) \<or> jobQueue (shared p') = jobQueue (shared p)"
    and "main p' = main p" and "jobs (shared p') = jobs (shared p)"
proof -
  show i: "i < length (pcs p)" using assms by (simp add: workerLoop_step_def split: if_splits)
  note st = assms [unfolded workerLoop_step_def if_P [OF i]]
  show "\<exists>pc. pcs p' = (pcs p)[i := pc]" "heap_ext (shared p) (shared p')"
    "running (shared p') = running (shared p)"
    "owns_queue (pcs p ! i) \<or> jobQueue (shared p') = jobQueue (shared p)"
    "main p' = main p" "jobs (shared p') = jobs (shared p)"
    using st by (cases "pcs p ! i"; auto simp: goto_def heap_ext_def cpp_bind_eq_Inr
        split: if_splits option.splits list.splits; fail)+
qed

lemma worker_own_pc:
  assumes "pc_ok (shared p) (pcs p ! i)" and "workerLoop_step i p = Some (Inr p')"
  shows "pc_ok (shared p') (pcs p' ! i)"
proof -
  have i: "i < length (pcs p)" using worker_effect(1) [OF assms(2)] .
  note st = assms(2) [unfolded workerLoop_step_def if_P [OF i]]
  show ?thesis
    using i st assms(1)
    by (cases "pcs p ! i")
      (auto simp: pc_ok_def nth_goto cpp_bind_eq_Inr split: if_splits option.splits list.splits)
qed

lemma pcs_inv_worker:
  assumes "lock_inv p" and "pcs_inv p" and "workerLoop_step i p = Some (Inr p')"
  shows "pcs_inv p'"
  unfolding pcs_inv_def
proof (intro allI impI)
  fix j assume j: "j < length (pcs p')"
  note eff = worker_effect [OF assms(3)]
  from eff(2) obtain pc where pc: "pcs p' = (pcs p)[i := pc]" ..
  show "pc_ok (shared p') (pcs p' ! j)"
  proof (cases "j = i")
    case True
    with assms(2) eff(1) show ?thesis by (simp add: worker_own_pc [OF _ assms(3)] pcs_inv_def)
  next
    case False
    with pc j have "pcs p' ! j = pcs p ! j" "j < length (pcs p)" by simp_all
    moreover have "owns_queue (pcs p ! j) \<Longrightarrow> jobQueue (shared p') = jobQueue (shared p)"
      using eff(1,5) False assms(1) \<open>j < length (pcs p)\<close> by (auto simp: lock_inv_def)
    ultimately show ?thesis
      using assms(2) eff(3,4) by (auto simp: pcs_inv_def intro: pc_ok_frame [of "shared p"])
  qed
qed

lemma pcs_inv_frame:
  assumes "pcs_inv p" and "pcs p' = pcs p" and "heap_ext (shared p) (shared p')"
    and "running (shared p') \<longrightarrow> running (shared p)"
    and "jobQueue (shared p') = jobQueue (shared p) \<or> (lock_inv p \<and> qOwner p = None)"
  shows "pcs_inv p'"
  unfolding pcs_inv_def
proof (intro allI impI)
  fix j assume "j < length (pcs p')"
  then have j: "j < length (pcs p)" by (simp add: assms(2))
  have "owns_queue (pcs p ! j) \<Longrightarrow> jobQueue (shared p') = jobQueue (shared p)"
    using assms(5) j by (auto simp: lock_inv_def)
  from pc_ok_frame [OF pcs_invD [OF assms(1) j refl] assms(3,4) this]
  show "pc_ok (shared p') (pcs p' ! j)" by (simp add: assms(2))
qed

lemma pcs_inv_goto_lock: "pcs_inv p \<Longrightarrow> pcs_inv (goto i W_Lock p)"
  by (auto simp: pcs_inv_def nth_goto pc_ok_def)

lemma pc_ok_wake: "pc_ok r pc \<Longrightarrow> pc_ok r (wake pc)"
  by (auto simp: wake_def pc_ok_def)

lemma pcs_inv_step:
  assumes "pool_inv p" and "pool_step e p = Some (Inr p')"
  shows "pcs_inv p'"
proof -
  from assms(1) have inv: "lock_inv p" "pcs_inv p" "runner_inv (view p)"
    by (simp_all add: pool_inv_def)
  have fresh: "heap (shared p) (next_addr (shared p)) = None"
    using inv_fresh [OF inv(3)] by simp
  show ?thesis
  proof (cases e)
    case (E_worker i)
    with inv assms(2) show ?thesis by (auto intro: pcs_inv_worker)
  next
    case (E_spurious i)
    with inv assms(2) show ?thesis by (auto simp: pcs_inv_goto_lock split: if_splits)
  next
    case (E_signal i)
    have "pcs_inv (p\<lparr>main := M_Idle\<rparr>)" using inv(2) by (simp add: pcs_inv_def)
    with E_signal assms(2) show ?thesis
      by (auto simp: signal_step_def pcs_inv_goto_lock split: if_splits)
  next
    case E_broadcast
    with inv(2) assms(2) show ?thesis by (auto simp: pcs_inv_def pc_ok_wake split: if_splits)
  next
    case (E_submit ts seq req)
    with assms(2) have p': "p' = enqueue_insert ts seq req p" by (auto split: if_splits)
    show ?thesis
      by (rule pcs_inv_frame [OF inv(2)])
        (use fresh in \<open>auto simp: p' enqueue_insert_def Let_def heap_ext_def\<close>)
  next
    case E_take
    with assms(2) obtain jid a where "take_step jid a p = Inr p'"
      by (auto split: main_pc.splits)
    then show ?thesis
      by (intro pcs_inv_frame [OF inv(2)])
        (auto simp: take_step_def heap_ext_def split: option.splits if_splits)
  qed (use inv assms(2) in \<open>auto intro: pcs_inv_frame [OF inv(2)]
      split: if_splits option.splits main_pc.splits\<close>)
qed

lemma main_ok_step:
  assumes "main_ok (shared p) (main p)" and "pool_step e p = Some (Inr p')"
  shows "main_ok (shared p') (main p')"
proof (cases e)
  case (E_worker i)
  with assms worker_effect [of i p p'] show ?thesis by (auto simp: main_ok_def split: main_pc.split)
qed (use assms in \<open>auto simp: main_ok_def enqueue_insert_def Let_def signal_step_def take_step_def
    split: if_splits option.splits main_pc.splits\<close>)

lemma worker_never_all_asleep:
  assumes "pcs_inv p" and "workerLoop_step i p = Some (Inr p')"
  shows "pcs p' ! i \<noteq> W_Asleep \<or> jobQueue (shared p') = []"
proof -
  have i: "i < length (pcs p)" using worker_effect(1) [OF assms(2)] .
  note st = assms(2) [unfolded workerLoop_step_def if_P [OF i]]
  show ?thesis
    using i st pcs_invD [OF assms(1) i]
    by (cases "pcs p ! i")
      (auto simp: pc_ok_def nth_goto cpp_bind_eq_Inr split: if_splits option.splits list.splits)
qed

lemma wake_inv_awake: "i < length (pcs p) \<Longrightarrow> pcs p ! i \<noteq> W_Asleep \<Longrightarrow> wake_inv p"
  unfolding wake_inv_def by (metis nth_mem singletonD subsetD)

lemma wake_inv_empty: "jobQueue (shared p) = [] \<Longrightarrow> wake_inv p"
  by (simp add: wake_inv_def)

lemma wake_inv_worker:
  assumes "pcs_inv p" and "workerLoop_step i p = Some (Inr p')"
  shows "wake_inv p'"
proof -
  have "i < length (pcs p')" using worker_effect(1,2) [OF assms(2)] by auto
  then show ?thesis
    using worker_never_all_asleep [OF assms] wake_inv_awake [of i p'] wake_inv_empty [of p'] by blast
qed

lemma wake_inv_goto_lock: "i < length (pcs p) \<Longrightarrow> wake_inv (goto i W_Lock p)"
  by (rule wake_inv_awake [of i]) (simp_all add: nth_goto)

lemma wake_inv_step:
  assumes "wake_inv p" and "pcs_inv p" and "pool_step e p = Some (Inr p')"
  shows "wake_inv p'"
proof (cases e)
  case (E_worker i)
  with assms show ?thesis by (auto intro: wake_inv_worker)
next
  case (E_spurious i)
  with assms(3) show ?thesis by (auto simp: wake_inv_goto_lock split: if_splits)
next
  case E_broadcast
  show ?thesis
  proof (cases "pcs p = []")
    case False
    with E_broadcast assms(3) show ?thesis
      by (intro wake_inv_awake [of 0]) (auto simp: wake_def split: if_splits)
  qed (use E_broadcast assms(3) in \<open>auto simp: wake_inv_def split: if_splits\<close>)
next
  case (E_signal i)
  show ?thesis
  proof (cases "W_Asleep \<in> set (pcs p)")
    case True
    with E_signal assms(3) show ?thesis
      by (auto simp: signal_step_def intro!: wake_inv_goto_lock split: if_splits)
  next
    case False
    with E_signal assms(3) have "pcs p' = pcs p" by (auto simp: signal_step_def split: if_splits)
    with False show ?thesis by (auto simp: wake_inv_def dest: subset_singletonD)
  qed
qed (use assms in \<open>auto simp: wake_inv_def enqueue_insert_def Let_def take_step_def
    split: if_splits option.splits main_pc.splits\<close>)

lemma pool_inv_step:
  assumes "pool_inv p" and "pool_step e p = Some (Inr p')"
  shows "pool_inv p'"
  using assms lock_inv_step [OF _ assms(2)] pcs_inv_step [OF assms] main_ok_step [OF _ assms(2)]
    wake_inv_step [OF _ _ assms(2)] view_step_inv [OF view_simulates [OF assms]]
  by (simp add: pool_inv_def)

lemma pool_inv_start: "pool_inv (pool_start threads n)"
proof -
  have "view (pool_start threads n) =
      (AlgoRunnerIpml_new threads)\<lparr>running := True, workers := replicate n None\<rparr>"
    by (simp add: view_def pool_start_def AlgoRunnerIpml_new_def map_replicate_const)
  then have "runner_inv (view (pool_start threads n))"
    by (auto simp: runner_inv_def AlgoRunnerIpml_new_def holds_def in_flight_def)
  then show ?thesis
    by (simp add: pool_inv_def lock_inv_def pcs_inv_def main_ok_def wake_inv_def pool_start_def
        pc_ok_def AlgoRunnerIpml_new_def)
qed

lemma pool_reach_inv: "pool_reach threads n p \<Longrightarrow> pool_inv p"
  by (induction rule: pool_reach.induct) (auto intro: pool_inv_start pool_inv_step)

section \<open>Consequences\<close>

lemma pool_exec_reach:
  "pool_reach threads n p \<Longrightarrow> pool_exec es p = Some (Inr p') \<Longrightarrow> pool_reach threads n p'"
  by (induction es arbitrary: p) (auto split: option.splits sum.splits intro: pool_reach.step)

lemma pool_exec_from_start:
  "pool_exec es (pool_start threads n) = Some (Inr p) \<Longrightarrow> pool_reach threads n p"
  by (rule pool_exec_reach [OF pool_reach.start])

text \<open>The number of threads is fixed, and a running pool has all of them.\<close>

lemma pool_reach_length: "pool_reach threads n p \<Longrightarrow> length (pcs p) = n"
proof (induction rule: pool_reach.induct)
  case start
  then show ?case by (simp add: pool_start_def)
next
  case (step p e p')
  show ?case
  proof (cases e)
    case (E_worker i)
    with step show ?thesis using worker_effect(2) [of i p p'] by auto
  qed (use step in \<open>auto simp: enqueue_insert_def Let_def signal_step_def take_step_def
      split: if_splits option.splits main_pc.splits\<close>)
qed

lemma held_allocated:
  assumes "pool_inv p" and "i < length (pcs p)" and "held (pcs p ! i) = Some a"
  shows "heap (shared p) a \<noteq> None"
proof -
  from assms have "in_flight (view p) a" by (auto simp: in_flight_def holds_def)
  moreover have inv: "runner_inv (view p)" using assms(1) by (simp add: pool_inv_def)
  ultimately have "a < next_addr (view p)" by (rule inv_bound [rotated])
  then show ?thesis using inv_heap [OF inv] by auto
qed

lemma pool_halts:
  assumes "pool_inv p" and "pool_step e p = Some (Inl h)"
  shows "\<exists>i a job. e = E_worker i \<and> i < length (pcs p) \<and> pcs p ! i = W_Compute a \<and>
    heap (shared p) a = Some job \<and> compute (job_req job) = Inl h"
proof (cases e)
  case (E_worker i)
  with assms(2) have i: "i < length (pcs p)" by (simp add: workerLoop_step_def split: if_splits)
  note st = assms(2) [unfolded E_worker pool_step.simps workerLoop_step_def if_P [OF i]]
  show ?thesis
    using i st held_allocated [OF assms(1) i] assms(1) E_worker
    by (cases "pcs p ! i")
      (auto simp: pool_inv_def pc_ok_def cpp_bind_eq_Inl dest!: pcs_invD [OF _ i]
        split: if_splits option.splits list.splits)
next
  case E_take
  with assms(2) obtain jid a where m: "main p = M_Take jid a" "take_step jid a p = Inl h"
    by (auto split: main_pc.splits)
  with assms(1) have "jobs (view p) jid = Some a" by (simp add: pool_inv_def main_ok_def)
  then have "heap (shared p) a \<noteq> None"
    using assms(1) inv_table [of "view p" jid a] by (auto simp: pool_inv_def)
  with m show ?thesis by (auto simp: take_step_def split: option.splits if_splits)
qed (use assms(2) in \<open>auto simp: signal_step_def split: if_splits option.splits main_pc.splits\<close>)

lemma worker_can_move:
  assumes "i < length (pcs p)" and "pcs p ! i \<noteq> W_Asleep" and "pcs p ! i \<noteq> W_Exit"
    and "pcs p ! i = W_Lock \<longrightarrow> qOwner p = None"
  shows "workerLoop_step i p \<noteq> None"
  using assms by (cases "pcs p ! i") (auto simp: workerLoop_step_def split: option.split list.split)

lemma some_worker_moves:
  assumes inv: "pool_inv p" and "running (shared p)"
    and i: "i < length (pcs p)" "pcs p ! i \<noteq> W_Asleep"
  shows "\<exists>j. workerLoop_step j p \<noteq> None"
proof -
  have no_exit: "pcs p ! j \<noteq> W_Exit" if "j < length (pcs p)" for j
    using inv pcs_invD [of p j W_Exit] that assms(2) by (auto simp: pool_inv_def pc_ok_def)
  show ?thesis
  proof (cases "qOwner p")
    case None
    with i no_exit show ?thesis using worker_can_move [of i p] by blast
  next
    case (Some j)
    then have j: "j < length (pcs p)" "owns_queue (pcs p ! j)"
      using inv by (auto simp: pool_inv_def lock_inv_def)
    with no_exit [of j] show ?thesis using worker_can_move [of j p] by (auto simp: owns_queue_def)
  qed
qed

lemma pool_progress:
  assumes inv: "pool_inv p" and "running (shared p)" and "pcs p \<noteq> []"
    and "jobQueue (shared p) \<noteq> []"
  shows "(\<exists>j. pool_step (E_worker j) p \<noteq> None) \<or> (\<exists>j. pool_step (E_signal j) p \<noteq> None)"
proof (cases "set (pcs p) \<subseteq> {W_Asleep}")
  case True
  with inv assms(3,4) have "main p = M_Signal" by (simp add: pool_inv_def wake_inv_def)
  moreover have "pcs p ! 0 = W_Asleep" using True assms(3) by (auto dest: subsetD [OF _ nth_mem])
  ultimately have "pool_step (E_signal 0) p \<noteq> None"
    using assms(3) by (auto simp: signal_step_def)
  then show ?thesis by blast
next
  case False
  then obtain pc where "pc \<in> set (pcs p)" "pc \<noteq> W_Asleep" by auto
  then obtain i where "i < length (pcs p)" "pcs p ! i \<noteq> W_Asleep" by (metis in_set_conv_nth)
  then show ?thesis using some_worker_moves [OF inv assms(2)] by auto
qed

section \<open>Properties\<close>

lemmas pool_eval = pool_start_def workerLoop_step_def goto_def AlgoRunnerIpml_new_def
  enqueue_insert_def Let_def signal_step_def sum_request_def Job_default_def compute_def
  add_i32_def in_i32_def

text \<open>
  C6: in every interleaving, no thread ever takes the front of an empty queue or follows a dangling
  job pointer: the only way a step can fail is that a worker computes a request whose own arithmetic
  is undefined. In particular two workers are never inside the queue mutex at once.
\<close>

theorem pool_memory_safe:
  assumes "pool_reach threads n p"
  shows "(\<forall>e h. pool_step e p = Some (Inl h) \<longrightarrow>
      (\<exists>i a job. e = E_worker i \<and> i < length (pcs p) \<and> pcs p ! i = W_Compute a \<and>
        heap (shared p) a = Some job \<and> compute (job_req job) = Inl h)) \<and>
    (\<forall>i j. i < length (pcs p) \<longrightarrow> j < length (pcs p) \<longrightarrow> owns_queue (pcs p ! i) \<longrightarrow>
      owns_queue (pcs p ! j) \<longrightarrow> i = j)"
proof (intro conjI allI impI)
  fix e h assume "pool_step e p = Some (Inl h)"
  then show "\<exists>i a job. e = E_worker i \<and> i < length (pcs p) \<and> pcs p ! i = W_Compute a \<and>
        heap (shared p) a = Some job \<and> compute (job_req job) = Inl h"
    by (rule pool_halts [OF pool_reach_inv [OF assms]])
next
  fix i j assume "i < length (pcs p)" "j < length (pcs p)" "owns_queue (pcs p ! i)"
    "owns_queue (pcs p ! j)"
  then show "i = j" using pool_reach_inv [OF assms] by (auto simp: pool_inv_def lock_inv_def)
qed

theorem pool_memory_safe_witness:
  "\<exists>p. pool_reach 1 1 p \<and> pool_step (E_worker 0) p = Some (Inl Signed_Overflow) \<and>
     (\<exists>i a job. E_worker 0 = E_worker i \<and> i < length (pcs p) \<and> pcs p ! i = W_Compute a \<and>
        heap (shared p) a = Some job \<and> compute (job_req job) = Inl Signed_Overflow)"
proof -
  have "\<exists>p. pool_exec ([E_submit 0 0 (sum_request 2147483647 1), E_push, E_signal 0] @
      replicate 5 (E_worker 0)) (pool_start 1 1) = Some (Inr p) \<and>
      pool_step (E_worker 0) p = Some (Inl Signed_Overflow)"
    by (simp add: pool_eval numeral_eq_Suc)
  then obtain p where "pool_reach 1 1 p" "pool_step (E_worker 0) p = Some (Inl Signed_Overflow)"
    using pool_exec_from_start by blast
  then show ?thesis using pool_memory_safe [of 1 1 p] by blast
qed

text \<open>
  C4: every step of every interleaving is, seen at the granularity of critical sections, one step of
  the coarser job runner (a worker takes a job, a worker publishes an outcome, a submission, a
  collection, clearing the running flag) or no change at all; and the coarser invariant holds.
\<close>

theorem pool_refines_runner:
  assumes "pool_reach threads n p" and "pool_step e p = Some (Inr p')"
  shows "view_step (view p) (view p') \<and> runner_inv (view p')"
proof -
  have inv: "pool_inv p" using assms(1) by (rule pool_reach_inv)
  show ?thesis
    using view_simulates [OF inv assms(2)] pool_inv_step [OF inv assms(2)]
    by (simp add: pool_inv_def)
qed

theorem pool_refines_runner_witness:
  "\<exists>p p'. pool_reach 1 1 p \<and> pool_step (E_worker 0) p = Some (Inr p') \<and>
     pcs p = [W_Pop] \<and> view_step (view p) (view p') \<and> runner_inv (view p')"
proof -
  have "\<exists>p p'. pool_exec ([E_submit 0 0 (sum_request 1 2), E_push, E_signal 0] @
      replicate 4 (E_worker 0)) (pool_start 1 1) = Some (Inr p) \<and> pcs p = [W_Pop] \<and>
      pool_step (E_worker 0) p = Some (Inr p')"
    by (simp add: pool_eval numeral_eq_Suc)
  then obtain p p' where "pool_reach 1 1 p" "pcs p = [W_Pop]"
      "pool_step (E_worker 0) p = Some (Inr p')"
    using pool_exec_from_start by blast
  then show ?thesis using pool_refines_runner [of 1 1 p "E_worker 0" p'] by blast
qed

text \<open>
  C14: no submitted job is forgotten. While the pool runs and has a worker, a job in the queue means
  that some worker can take a step, or that the submitting thread is just about to signal a sleeping
  one: the wake-up of a submission is never lost.
\<close>

theorem submitted_job_not_forgotten:
  assumes "pool_reach threads n p" and "running (shared p)" and "0 < n"
    and "jobQueue (shared p) \<noteq> []"
  shows "(\<exists>i. pool_step (E_worker i) p \<noteq> None) \<or> (\<exists>i. pool_step (E_signal i) p \<noteq> None)"
proof -
  have "pcs p \<noteq> []" using pool_reach_length [OF assms(1)] assms(3) by auto
  then show ?thesis using pool_progress [OF pool_reach_inv [OF assms(1)] assms(2)] assms(4) by blast
qed

theorem submitted_job_not_forgotten_witness:
  "\<exists>p. pool_reach 1 1 p \<and> running (shared p) \<and> jobQueue (shared p) = [0] \<and> pcs p = [W_Asleep] \<and>
     ((\<exists>i. pool_step (E_worker i) p \<noteq> None) \<or> (\<exists>i. pool_step (E_signal i) p \<noteq> None))"
proof -
  have "\<exists>p. pool_exec (replicate 4 (E_worker 0) @ [E_submit 0 0 (sum_request 1 2), E_push])
      (pool_start 1 1) = Some (Inr p) \<and> running (shared p) \<and> jobQueue (shared p) = [0] \<and>
      pcs p = [W_Asleep]"
    by (simp add: pool_eval numeral_eq_Suc)
  then obtain p where p: "pool_reach 1 1 p" "running (shared p)" "jobQueue (shared p) = [0]"
      "pcs p = [W_Asleep]"
    using pool_exec_from_start by blast
  then have "(\<exists>i. pool_step (E_worker i) p \<noteq> None) \<or> (\<exists>i. pool_step (E_signal i) p \<noteq> None)"
    by (intro submitted_job_not_forgotten [of 1 1 p]) simp_all
  with p show ?thesis by blast
qed

text \<open>
  C31: stopping the pool can hang for ever. \<^verbatim>\<open>deinit\<close> clears the running flag and
  broadcasts without holding the queue mutex, so both can happen between a worker's test of the flag
  and its call of \<^verbatim>\<open>pthread_cond_wait\<close>; the broadcast then finds nobody asleep. The
  worker falls asleep, the main thread waits to join it, and no event of any thread is possible any
  more, unless the operating system wakes the worker by accident.
\<close>

theorem deinit_can_hang:
  "\<exists>p. pool_exec hang_trace (pool_start 1 1) = Some (Inr p) \<and> main p = M_Join 0 \<and>
     {e. pool_step e p \<noteq> None} \<subseteq> range E_spurious"
proof -
  let ?p = "(pool_start 1 1)\<lparr>shared := (AlgoRunnerIpml_new 1)\<lparr>running := False\<rparr>,
    pcs := [W_Asleep], main := M_Join 0\<rparr>"
  have "pool_exec hang_trace (pool_start 1 1) = Some (Inr ?p)"
    by (simp add: hang_trace_def pool_start_def workerLoop_step_def goto_def AlgoRunnerIpml_new_def
        wake_def)
  moreover have "pool_step e ?p \<noteq> None \<longrightarrow> (\<exists>i. e = E_spurious i)" for e
    by (cases e) (auto simp: workerLoop_step_def)
  then have "{e. pool_step e ?p \<noteq> None} \<subseteq> range E_spurious" by blast
  ultimately show ?thesis by (intro exI [of _ ?p]) simp
qed

end
