(* ===== verification/Exec_Caps.thy ===== *)
theory Exec_Caps
  imports Error_Handling
begin

unbundle bit_operations_syntax

text \<open>
  The capability bitmask: \<^verbatim>\<open>ExecFunFlags\<close> of
  \<^verbatim>\<open>src/includes/ipc.h\<close>, \<^verbatim>\<open>verifyExecCaps\<close> of
  \<^verbatim>\<open>src/sources/ipc.cpp\<close> and
  \<^verbatim>\<open>clientHasCapabilityFor\<close> of
  \<^verbatim>\<open>src/sources/server/application.cpp\<close>. The abstract reading of a mask is the
  set of operations it allows.
\<close>

section \<open>Flags\<close>

definition ADD :: u8 where "ADD = push_bit 0 1"

definition SUB :: u8 where "SUB = push_bit 1 1"

definition MULT :: u8 where "MULT = push_bit 2 1"

definition DIV :: u8 where "DIV = push_bit 3 1"

definition CONCAT :: u8 where "CONCAT = push_bit 4 1"

definition FIND_START :: u8 where "FIND_START = push_bit 5 1"

lemmas flag_defs = ADD_def SUB_def MULT_def DIV_def CONCAT_def FIND_START_def

text \<open>
  \<^verbatim>\<open>~\<close> promotes its operand to \<^verbatim>\<open>int\<close>, so the complement
  and the conjunction are taken at 32 bits.
\<close>

definition verifyExecCaps :: "u8 \<Rightarrow> bool" where
  "verifyExecCaps execFunFlags \<longleftrightarrow>
     (let allExecFunFlags = ADD OR SUB OR MULT OR DIV OR CONCAT OR FIND_START in
      (ucast execFunFlags :: i32) AND NOT (ucast allExecFunFlags) = 0 \<and> execFunFlags > 0)"

section \<open>The capability check of a request\<close>

fun math_flag :: "MathOp \<Rightarrow> u8 option" where
  "math_flag MATH_ADD = Some ADD"
| "math_flag MATH_SUB = Some SUB"
| "math_flag MATH_MUL = Some MULT"
| "math_flag MATH_DIV = Some DIV"
| "math_flag (MathOp_other n) = None"

fun str_flag :: "StrOp \<Rightarrow> u8 option" where
  "str_flag STR_CONCAT = Some CONCAT"
| "str_flag STR_FIND_START = Some FIND_START"
| "str_flag (StrOp_other n) = None"

definition clientHasCapabilityFor :: "SubmitRequest \<Rightarrow> u8 \<Rightarrow> bool" where
  "clientHasCapabilityFor sreq clientCaps =
     (case sreq_payload sreq of
        Some (math m) \<Rightarrow>
          (case math_flag (math_op m) of
             None \<Rightarrow> False
           | Some required \<Rightarrow> clientCaps AND required \<noteq> 0)
      | Some (str s) \<Rightarrow>
          (case str_flag (str_op s) of
             None \<Rightarrow> False
           | Some required \<Rightarrow> clientCaps AND required \<noteq> 0)
      | None \<Rightarrow> False)"

section \<open>The mask as a set of operations\<close>

datatype Operation = Op_add | Op_sub | Op_mult | Op_div | Op_concat | Op_find

fun op_bit :: "Operation \<Rightarrow> nat" where
  "op_bit Op_add = 0"
| "op_bit Op_sub = 1"
| "op_bit Op_mult = 2"
| "op_bit Op_div = 3"
| "op_bit Op_concat = 4"
| "op_bit Op_find = 5"

definition allowed :: "u8 \<Rightarrow> Operation set" where
  "allowed caps = {p. bit caps (op_bit p)}"

text \<open>The operation a request asks for, if it asks for one.\<close>

definition requested :: "SubmitRequest \<Rightarrow> Operation option" where
  "requested r =
     (case sreq_payload r of
        Some (math m) \<Rightarrow>
          (case math_op m of
             MATH_ADD \<Rightarrow> Some Op_add | MATH_SUB \<Rightarrow> Some Op_sub
           | MATH_MUL \<Rightarrow> Some Op_mult | MATH_DIV \<Rightarrow> Some Op_div | MathOp_other _ \<Rightarrow> None)
      | Some (str s) \<Rightarrow>
          (case str_op s of
             STR_CONCAT \<Rightarrow> Some Op_concat | STR_FIND_START \<Rightarrow> Some Op_find | StrOp_other _ \<Rightarrow> None)
      | None \<Rightarrow> None)"

section \<open>Lemmas\<close>

lemma flag_unset_iff:
  "(caps :: u8) AND ADD = 0 \<longleftrightarrow> \<not> bit caps 0"
  "caps AND SUB = 0 \<longleftrightarrow> \<not> bit caps 1"
  "caps AND MULT = 0 \<longleftrightarrow> \<not> bit caps 2"
  "caps AND DIV = 0 \<longleftrightarrow> \<not> bit caps 3"
  "caps AND CONCAT = 0 \<longleftrightarrow> \<not> bit caps 4"
  "caps AND FIND_START = 0 \<longleftrightarrow> \<not> bit caps 5"
proof -
  have "caps AND push_bit n 1 = 0 \<longleftrightarrow> \<not> bit caps n" for n
    by (simp add: and_exp_eq_0_iff_not_bit push_bit_eq_mult)
  then show
    "caps AND ADD = 0 \<longleftrightarrow> \<not> bit caps 0" "caps AND SUB = 0 \<longleftrightarrow> \<not> bit caps 1"
    "caps AND MULT = 0 \<longleftrightarrow> \<not> bit caps 2" "caps AND DIV = 0 \<longleftrightarrow> \<not> bit caps 3"
    "caps AND CONCAT = 0 \<longleftrightarrow> \<not> bit caps 4" "caps AND FIND_START = 0 \<longleftrightarrow> \<not> bit caps 5"
    by (simp_all only: flag_defs)
qed

lemma capability_iff:
  "clientHasCapabilityFor r caps \<longleftrightarrow> (\<exists>p. requested r = Some p \<and> p \<in> allowed caps)"
  by (auto simp: clientHasCapabilityFor_def requested_def allowed_def flag_unset_iff
      split: option.splits Payload.splits MathOp.splits StrOp.splits)

lemma u8_below_64_iff: "(f :: u8) < 64 \<longleftrightarrow> take_bit 6 f = f"
proof -
  have "f < 64 \<longleftrightarrow> unat f < 2 ^ 6" by (simp add: word_less_nat_alt)
  also have "\<dots> \<longleftrightarrow> take_bit 6 (unat f) = unat f" by (simp only: take_bit_nat_eq_self_iff)
  also have "\<dots> \<longleftrightarrow> unat (take_bit 6 f) = unat f" by (simp add: unsigned_take_bit_eq)
  also have "\<dots> \<longleftrightarrow> take_bit 6 f = f" by (metis unsigned_word_eqI)
  finally show ?thesis .
qed

lemma outside_mask_iff: "(ucast (f :: u8) :: i32) AND NOT (ucast (mask 6 :: u8)) = 0 \<longleftrightarrow> f < 64"
proof -
  have "bit f n \<Longrightarrow> n < 8 \<and> n < 32" for n
    using bit_imp_le_length [of f n] by simp
  then show ?thesis
    unfolding u8_below_64_iff by (auto simp: bit_eq_iff bit_simps)
qed

lemma verify_iff: "verifyExecCaps f \<longleftrightarrow> 0 < f \<and> f < 64"
proof -
  have all: "ADD OR SUB OR MULT OR DIV OR CONCAT OR FIND_START = mask 6"
    by (simp add: flag_defs mask_eq_exp_minus_1)
  show ?thesis by (auto simp: verifyExecCaps_def all Let_def outside_mask_iff)
qed

lemma bit_below_6:
  assumes "(f :: u8) < 64" and "bit f n"
  shows "n < 6"
  using assms by (metis bit_take_bit_iff u8_below_64_iff)

lemma op_bit_onto: "n < 6 \<Longrightarrow> \<exists>p. op_bit p = n"
proof -
  assume "n < 6"
  then consider "n = 0" | "n = 1" | "n = 2" | "n = 3" | "n = 4" | "n = 5" by linarith
  then show ?thesis using op_bit.simps by cases metis+
qed

lemma allowed_inj: "inj_on allowed {f. verifyExecCaps f}"
proof (rule inj_onI)
  fix f g :: u8
  assume ver: "f \<in> {f. verifyExecCaps f}" "g \<in> {f. verifyExecCaps f}" and eq: "allowed f = allowed g"
  have "bit f n \<longleftrightarrow> bit g n" for n
  proof (cases "n < 6")
    case True
    with op_bit_onto obtain p where "op_bit p = n" by blast
    with eq show ?thesis by (auto simp: allowed_def set_eq_iff)
  next
    case False
    with ver show ?thesis by (auto simp: verify_iff dest: bit_below_6)
  qed
  then show "f = g" by (simp add: bit_eq_iff)
qed

lemma allowed_nonempty: "verifyExecCaps f \<Longrightarrow> allowed f \<noteq> {}"
proof -
  assume "verifyExecCaps f"
  then have "f \<noteq> 0" "f < 64" by (auto simp: verify_iff)
  then obtain n where "bit f n" by (auto simp: bit_eq_iff)
  with \<open>f < 64\<close> bit_below_6 op_bit_onto obtain p where "bit f (op_bit p)" by metis
  then show ?thesis by (auto simp: allowed_def)
qed

lemma Operation_UNIV: "(UNIV :: Operation set) = {Op_add, Op_sub, Op_mult, Op_div, Op_concat, Op_find}"
  using Operation.exhaust by auto

lemma card_verified: "card {f. verifyExecCaps f} = 63"
proof -
  have "{f. verifyExecCaps f} = word_of_nat ` {1..63 :: nat}"
  proof
    show "{f. verifyExecCaps f} \<subseteq> word_of_nat ` {1..63}"
    proof
      fix f assume "f \<in> {f. verifyExecCaps f}"
      then have "0 < unat f" "unat f < 64" by (simp_all add: verify_iff word_less_nat_alt unat_gt_0)
      then have "unat f \<in> {1..63}" by simp
      moreover have "f = word_of_nat (unat f)" by simp
      ultimately show "f \<in> word_of_nat ` {1..63}" by blast
    qed
    show "word_of_nat ` {1..63} \<subseteq> {f. verifyExecCaps f}"
      by (auto simp: verify_iff word_less_nat_alt unat_of_nat)
  qed
  moreover have "inj_on (word_of_nat :: nat \<Rightarrow> u8) {1..63}"
    by (rule inj_onI) (auto simp: unat_of_nat dest!: arg_cong [where f = unat])
  ultimately show ?thesis by (simp add: card_image)
qed

section \<open>Properties\<close>

text \<open>
  C23: the masks \<^verbatim>\<open>verifyExecCaps\<close> accepts are, one to one, the non-empty sets of
  operations: every accepted mask allows something, no two allow the same operations, and every
  non-empty set of operations has its mask.
\<close>

theorem verified_masks_are_operation_sets:
  "bij_betw allowed {f. verifyExecCaps f} {S. S \<noteq> {}}"
proof -
  have "card {S :: Operation set. S \<noteq> {}} = 63"
  proof -
    have "{S :: Operation set. S \<noteq> {}} = Pow UNIV - {{}}" by auto
    then show ?thesis by (simp add: card_Pow Operation_UNIV)
  qed
  moreover have "card (allowed ` {f. verifyExecCaps f}) = 63"
    by (simp add: card_image allowed_inj card_verified)
  moreover have "finite {S :: Operation set. S \<noteq> {}}"
  proof (rule finite_subset)
    show "finite (Pow (UNIV :: Operation set))" by (simp add: Operation_UNIV)
  qed simp
  ultimately have "allowed ` {f. verifyExecCaps f} = {S. S \<noteq> {}}"
    using allowed_nonempty by (intro card_subset_eq) auto
  with allowed_inj show ?thesis by (simp add: bij_betw_def)
qed

end
