(* ===== verification/Zmq_Calls.thy ===== *)
theory Zmq_Calls
  imports Error_Handling
begin

text \<open>
  The calls of ZeroMQ the two applications make, as their callers see them. The library is not part of
  the repository: what a call returns or throws is a value the operations of the applications take as
  an argument, and the frames a socket accepted are part of what they return.
\<close>

datatype socket_state = Sock_open | Sock_bound string | Sock_connected string | Sock_closed

datatype recv_outcome =
    Recv_none \<comment> \<open>no value: nothing was received\<close>
  | Recv_frames "string list"
  | Recv_error int \<comment> \<open>\<open>zmq::error_t\<close> with its number\<close>
  | Recv_exception \<comment> \<open>another exception\<close>

datatype send_outcome =
    Sent nat
  | Send_none \<comment> \<open>no value\<close>
  | Send_error int \<comment> \<open>\<open>zmq::error_t\<close> with its number\<close>

type_synonym frame = "string \<times> bool" \<comment> \<open>the bytes, and whether more frames follow\<close>

text \<open>
  A send: the frame the socket took, the value the call returned, or the number of the error thrown.
\<close>

fun do_send :: "send_outcome \<Rightarrow> frame \<Rightarrow> frame list \<times> (int + nat option)" where
  "do_send (Sent n) f = ([f], Inr (Some n))"
| "do_send Send_none f = ([], Inr None)"
| "do_send (Send_error e) f = ([], Inl e)"

lemma do_send_value: "out \<noteq> Send_none \<Longrightarrow> snd (do_send out f) \<noteq> Inr None"
  by (cases out) simp_all

end
