(* ===== verification/Server_Application.thy ===== *)
theory Server_Application
  imports Worker_Pool Exec_Caps Zmq_Calls
begin

text \<open>
  The server of \<^verbatim>\<open>src/sources/server/application.cpp\<close>: the singleton with its
  lifecycle, the dispatch of a request envelope to the job runner, and the message loop with the
  handshake that registers a client and its capabilities.

  ZeroMQ is not part of the repository. What a call of it returns or throws is an input of the model:
  each pass through the loop takes the outcome of the receive and of up to two sends, the clocks, and
  the schedule of the workers. Frames the socket accepted are an output. Messages for
  \<^verbatim>\<open>spdlog\<close> are left out, except for those of the error checks.
\<close>

section \<open>State\<close>

record ServerApp =
  mRouter :: socket_state
  mClientExecCaps :: "string \<rightharpoonup> u8"
  mAlgoRunner :: AlgoRunner
  mAddress :: string
  mPort :: int
  mThreads :: int
  mInitialized :: bool

text \<open>The file-level pointer \<^verbatim>\<open>appPtr\<close> and the counter inside \<^verbatim>\<open>create\<close>.\<close>

record server_globals =
  srvPtr :: "ServerApp option"
  srvInstances :: int

definition server_globals_start :: server_globals where
  "server_globals_start = \<lparr>srvPtr = None, srvInstances = 0\<rparr>"

section \<open>Lifecycle\<close>

definition ServerApp_new :: "string \<Rightarrow> int \<Rightarrow> int \<Rightarrow> ServerApp" where
  "ServerApp_new address port threads =
     \<lparr>mRouter = Sock_open, mClientExecCaps = Map.empty, mAlgoRunner = AlgoRunner_new,
      mAddress = address, mPort = port, mThreads = threads, mInitialized = False\<rparr>"

text \<open>
  \<^verbatim>\<open>Application::get\<close>: the assertion is compiled out of a release build, so a null
  pointer is dereferenced.
\<close>

definition server_get :: "server_globals \<Rightarrow> ServerApp cpp" where
  "server_get g = (case srvPtr g of None \<Rightarrow> Inl Null_Deref | Some app \<Rightarrow> Inr app)"

definition server_create :: "string \<Rightarrow> int \<Rightarrow> int \<Rightarrow> server_globals \<Rightarrow> int \<times> server_globals" where
  "server_create address port threads g =
     (if srvInstances g \<ge> 1 then (EC_FAILURE, g)
      else
        let g' = g\<lparr>srvInstances := srvInstances g + 1\<rparr> in
        if srvPtr g' \<noteq> None then (EC_FAILURE, g')
        else (EC_SUCCESS, g'\<lparr>srvPtr := Some (ServerApp_new address port threads)\<rparr>))"

definition bind_address :: "ServerApp \<Rightarrow> string" where
  "bind_address app = ''tcp://'' @ mAddress app @ '':'' @ show_int (mPort app)"

text \<open>
  \<open>created\<close> are the outcomes of the thread creations, \<open>bound\<close> tells whether
  \<^verbatim>\<open>bind\<close> succeeds or throws \<^verbatim>\<open>zmq::error_t\<close>.
\<close>

definition server_init_app :: "check_site \<Rightarrow> bool list \<Rightarrow> bool \<Rightarrow> ServerApp \<Rightarrow> (int \<times> ServerApp) cpp" where
  "server_init_app site created bound app =
     (if mInitialized app then Inr (EC_FAILURE, app)
      else cpp_bind (AlgoRunner_init created (mThreads app) (mAlgoRunner app)) (\<lambda>(result, runner).
        let app1 = app\<lparr>mAlgoRunner := runner\<rparr> in
        case RETURN_IF_ERROR (Int_status result) site of
          Inl rc \<Rightarrow> Inr (rc, app1)
        | Inr _ \<Rightarrow>
            if bound
            then Inr (EC_SUCCESS, app1\<lparr>mRouter := Sock_bound (bind_address app), mInitialized := True\<rparr>)
            else Inr (EC_FAILURE, app1)))"

definition server_init ::
  "check_site \<Rightarrow> bool list \<Rightarrow> bool \<Rightarrow> server_globals \<Rightarrow> (int \<times> server_globals) cpp" where
  "server_init site created bound g =
     (case srvPtr g of
        None \<Rightarrow> Inr (EC_FAILURE, g)
      | Some app \<Rightarrow> cpp_bind (server_init_app site created bound app) (\<lambda>(rc, app').
          Inr (rc, g\<lparr>srvPtr := Some app'\<rparr>)))"

definition server_deinit_app ::
  "check_site \<Rightarrow> stop_schedule \<Rightarrow> ServerApp \<Rightarrow> (int \<times> ServerApp) cpp" where
  "server_deinit_app site ws app =
     (if \<not> mInitialized app then Inr (EC_FAILURE, app)
      else cpp_bind (AlgoRunner_deinit ws (mAlgoRunner app)) (\<lambda>(result, runner).
        let app1 = app\<lparr>mAlgoRunner := runner\<rparr> in
        case RETURN_IF_ERROR (Int_status result) site of
          Inl rc \<Rightarrow> Inr (rc, app1)
        | Inr _ \<Rightarrow> Inr (EC_SUCCESS, app1\<lparr>mInitialized := False, mRouter := Sock_closed\<rparr>)))"

definition server_deinit ::
  "check_site \<Rightarrow> stop_schedule \<Rightarrow> server_globals \<Rightarrow> (int \<times> server_globals) cpp" where
  "server_deinit site ws g =
     (case srvPtr g of
        None \<Rightarrow> Inr (EC_SUCCESS, g)
      | Some app \<Rightarrow> cpp_bind (server_deinit_app site ws app) (\<lambda>(rc, app').
          Inr (rc, g\<lparr>srvPtr := Some app'\<rparr>)))"

text \<open>The destructor: only an initialised application is taken down.\<close>

definition server_destroy :: "check_site \<Rightarrow> stop_schedule \<Rightarrow> ServerApp \<Rightarrow> ServerApp cpp" where
  "server_destroy site ws app =
     (if mInitialized app then cpp_bind (server_deinit_app site ws app) (\<lambda>(rc, app'). Inr app')
      else Inr app)"

section \<open>Handling one request\<close>

record call_env =
  ce_site :: check_site
  ce_clock :: u64 \<comment> \<open>the steady clock, in nanoseconds\<close>
  ce_now :: timespec \<comment> \<open>the realtime clock\<close>
  ce_script :: "(worker_event list \<times> int) list" \<comment> \<open>the timed waits\<close>

text \<open>\<^verbatim>\<open>mutable_submit()\<close> and \<^verbatim>\<open>mutable_get()\<close> of the response's oneof.\<close>

definition mutable_submit :: "EnvelopeResp \<Rightarrow> SubmitResponse" where
  "mutable_submit e = (case e of Some (resp_submit s) \<Rightarrow> s | _ \<Rightarrow> SubmitResponse_default)"

definition mutable_get :: "EnvelopeResp \<Rightarrow> GetResponse" where
  "mutable_get e = (case e of Some (resp_get g) \<Rightarrow> g | _ \<Rightarrow> GetResponse_default)"

definition handleEnvelope ::
  "call_env \<Rightarrow> EnvelopeReq \<Rightarrow> u8 \<Rightarrow> EnvelopeResp \<Rightarrow> AlgoRunner
    \<Rightarrow> (int \<times> EnvelopeResp \<times> io_output \<times> AlgoRunner) cpp" where
  "handleEnvelope env request clientExecCaps response runner =
     (case request of
        Some (env_submit sreq) \<Rightarrow>
          (if \<not> clientHasCapabilityFor sreq clientExecCaps then
             Inr (EC_SUCCESS,
                  Some (resp_submit ((mutable_submit response)\<lparr>sresp_status := ST_ERROR_INVALID_INPUT\<rparr>)),
                  no_output, runner)
           else
             cpp_bind (AlgoRunner_run (ce_site env) (ce_clock env) sreq SubmitResponse_default runner)
               (\<lambda>(result, sresp, out, runner'). Inr (result, Some (resp_submit sresp), out, runner')))
      | Some (env_get greq) \<Rightarrow>
          cpp_bind (AlgoRunner_get (ce_now env) (ce_script env) greq GetResponse_default runner)
            (\<lambda>(result, gresp, runner'). Inr (result, Some (resp_get gresp), no_output, runner'))
      | None \<Rightarrow>
          Inr (EC_FAILURE,
               Some (resp_get ((mutable_get response)\<lparr>gresp_status := ST_ERROR_INVALID_INPUT\<rparr>)),
               no_output, runner))"

section \<open>The message loop\<close>

text \<open>How a pass through the loop ends. An exception leaves the \<^verbatim>\<open>try\<close> block.\<close>

datatype pass_end = Continue | Return_with int | Thrown int

record loop_env =
  le_recv :: recv_outcome
  le_send1 :: send_outcome
  le_send2 :: send_outcome
  le_call :: call_env

text \<open>The lambda \<^verbatim>\<open>sendBadResponse\<close>: both sends are made, their results only logged.\<close>

definition sendBadResponse :: "codec \<Rightarrow> loop_env \<Rightarrow> string \<Rightarrow> frame list \<times> pass_end" where
  "sendBadResponse cd env clientId =
     (let err = Some (resp_get (GetResponse_default\<lparr>gresp_status := ST_ERROR_INVALID_INPUT\<rparr>));
          buf = (case ser_resp cd err of None \<Rightarrow> [] | Some b \<Rightarrow> b)
      in case do_send (le_send1 env) (clientId, True) of
           (f1, Inl e) \<Rightarrow> (f1, Thrown e)
         | (f1, Inr _) \<Rightarrow>
             (case do_send (le_send2 env) (buf, False) of
                (f2, Inl e) \<Rightarrow> (f1 @ f2, Thrown e)
              | (f2, Inr _) \<Rightarrow> (f1 @ f2, Continue)))"

text \<open>The reply at the end of a pass: a failed send returns from \<^verbatim>\<open>run\<close>.\<close>

definition sendReply :: "loop_env \<Rightarrow> string \<Rightarrow> string \<Rightarrow> frame list \<times> pass_end" where
  "sendReply env clientId body =
     (case do_send (le_send1 env) (clientId, True) of
        (f1, Inl e) \<Rightarrow> (f1, Thrown e)
      | (f1, Inr n1) \<Rightarrow>
          (case RETURN_IF_ERROR (Zmq_status n1) (ce_site (le_call env)) of
             Inl rc \<Rightarrow> (f1, Return_with rc)
           | Inr _ \<Rightarrow>
               (case do_send (le_send2 env) (body, False) of
                  (f2, Inl e) \<Rightarrow> (f1 @ f2, Thrown e)
                | (f2, Inr n2) \<Rightarrow>
                    (case RETURN_IF_ERROR (Zmq_status n2) (ce_site (le_call env)) of
                       Inl rc \<Rightarrow> (f1 @ f2, Return_with rc)
                     | Inr _ \<Rightarrow> (f1 @ f2, Continue)))))"

text \<open>The first message of an unknown client.\<close>

definition handleHandshake ::
  "codec \<Rightarrow> loop_env \<Rightarrow> string \<Rightarrow> string \<Rightarrow> ServerApp \<Rightarrow> ServerApp \<times> frame list \<times> pass_end" where
  "handleHandshake cd env clientId payload app =
     (case parse_handshake cd payload of
        None \<Rightarrow> (case sendBadResponse cd env clientId of (fs, e) \<Rightarrow> (app, fs, e))
      | Some handshake \<Rightarrow>
          (let funcFlags = ucast (exec_functions handshake) :: u8;
               app' = app\<lparr>mClientExecCaps := (mClientExecCaps app)(clientId \<mapsto> funcFlags)\<rparr>
           in if verifyExecCaps funcFlags then (app', [], Continue)
              else
                (case sendBadResponse cd env clientId of
                   (fs, Thrown n) \<Rightarrow> (app, fs, Thrown n)
                 | (fs, e) \<Rightarrow> (app', fs, Continue))))"

text \<open>A message of a known client.\<close>

definition handleRequest ::
  "codec \<Rightarrow> loop_env \<Rightarrow> string \<Rightarrow> string \<Rightarrow> u8 \<Rightarrow> ServerApp
    \<Rightarrow> (ServerApp \<times> frame list \<times> pass_end) cpp" where
  "handleRequest cd env clientId payload caps app =
     (case parse_req cd payload of
        None \<Rightarrow> Inr (case sendBadResponse cd env clientId of (fs, e) \<Rightarrow> (app, fs, e))
      | Some request \<Rightarrow>
          cpp_bind (handleEnvelope (le_call env) request caps None (mAlgoRunner app))
            (\<lambda>(result, envelopeResp, out, runner).
              let app' = app\<lparr>mAlgoRunner := runner\<rparr> in
              case ser_resp cd envelopeResp of
                None \<Rightarrow> Inr (app', [], Continue)
              | Some body \<Rightarrow> Inr (case sendReply env clientId body of (fs, e) \<Rightarrow> (app', fs, e))))"

text \<open>One pass through the loop of \<^verbatim>\<open>Application::run\<close>.\<close>

definition server_pass ::
  "codec \<Rightarrow> loop_env \<Rightarrow> ServerApp \<Rightarrow> (ServerApp \<times> frame list \<times> pass_end) cpp" where
  "server_pass cd env app =
     (case le_recv env of
        Recv_none \<Rightarrow> Inr (app, [], Continue)
      | Recv_error n \<Rightarrow> Inr (app, [], Thrown n)
      | Recv_exception \<Rightarrow> Inr (app, [], Thrown 0)
      | Recv_frames [] \<Rightarrow> Inl Empty_Front
      | Recv_frames (clientId # fs) \<Rightarrow>
          (let payload = last (clientId # fs) in
           case mClientExecCaps app clientId of
             None \<Rightarrow> Inr (handleHandshake cd env clientId payload app)
           | Some caps \<Rightarrow> handleRequest cd env clientId payload caps app))"

text \<open>What the workers do while the main thread waits for a message.\<close>

definition background :: "worker_event list \<Rightarrow> ServerApp \<Rightarrow> ServerApp cpp" where
  "background ws app =
     (case outImpl (mAlgoRunner app) of
        None \<Rightarrow> Inr app
      | Some r \<Rightarrow> cpp_bind (run_workers ws r) (\<lambda>r'.
          Inr (app\<lparr>mAlgoRunner := (mAlgoRunner app)\<lparr>outImpl := Some r'\<rparr>\<rparr>)))"

text \<open>
  The loop over its environment: for each pass, the value of the stop flag when the condition is
  tested, the activity of the workers, and the outcomes of the calls. With no further message the
  server stays blocked in the receive. Every exception is caught, ends the loop, and the function still
  returns \<^const>\<open>EC_SUCCESS\<close>.
\<close>

fun server_loop ::
  "codec \<Rightarrow> (bool \<times> worker_event list \<times> loop_env) list \<Rightarrow> ServerApp \<Rightarrow> frame list
    \<Rightarrow> (int \<times> ServerApp \<times> frame list) cpp" where
  "server_loop cd [] app sent = Inl Blocked"
| "server_loop cd ((stop, ws, env) # evs) app sent =
     (if \<not> (mInitialized app \<and> \<not> stop) then Inr (EC_SUCCESS, app, sent)
      else cpp_bind (background ws app) (\<lambda>app1.
           cpp_bind (server_pass cd env app1) (\<lambda>(app2, fs, e).
             case e of
               Continue \<Rightarrow> server_loop cd evs app2 (sent @ fs)
             | Return_with rc \<Rightarrow> Inr (rc, app2, sent @ fs)
             | Thrown n \<Rightarrow> Inr (EC_SUCCESS, app2, sent @ fs))))"

definition server_run ::
  "codec \<Rightarrow> (bool \<times> worker_event list \<times> loop_env) list \<Rightarrow> ServerApp
    \<Rightarrow> (int \<times> ServerApp \<times> frame list) cpp" where
  "server_run cd evs app =
     (if \<not> mInitialized app then Inr (EC_FAILURE, app, []) else server_loop cd evs app [])"

text \<open>The states and outputs an application can reach by passes that go on.\<close>

inductive server_reach :: "codec \<Rightarrow> ServerApp \<Rightarrow> ServerApp \<Rightarrow> frame list \<Rightarrow> bool" for cd app0 where
  start: "server_reach cd app0 app0 []"
| work: "server_reach cd app0 app fs \<Longrightarrow> background ws app = Inr app' \<Longrightarrow> server_reach cd app0 app' fs"
| pass: "server_reach cd app0 app fs \<Longrightarrow> server_pass cd env app = Inr (app', gs, Continue) \<Longrightarrow>
    server_reach cd app0 app' (fs @ gs)"

section \<open>Invariant of the application\<close>

definition runner_ok :: "AlgoRunner \<Rightarrow> bool" where
  "runner_ok h \<longleftrightarrow> (case outImpl h of None \<Rightarrow> True | Some r \<Rightarrow> runner_inv r \<and> running r)"

text \<open>The runner is sound and running, and an initialised application has one.\<close>

definition server_inv :: "ServerApp \<Rightarrow> bool" where
  "server_inv app \<longleftrightarrow> runner_ok (mAlgoRunner app) \<and>
     (mInitialized app \<longrightarrow> outImpl (mAlgoRunner app) \<noteq> None)"

lemma AlgoRunner_run_ok:
  assumes "runner_ok h" and "AlgoRunner_run site ts req resp0 h = Inr (rc, resp, out, h')"
  shows "runner_ok h' \<and> (outImpl h' = None \<longleftrightarrow> outImpl h = None)"
proof (cases "outImpl h")
  case None
  with assms show ?thesis by (auto simp: AlgoRunner_run_def)
next
  case (Some r)
  with assms obtain seq' r' where "impl_run site ts (static_seq h) req resp0 r = Inr (rc, resp, out, seq', r')"
      "h' = h\<lparr>outImpl := Some r', static_seq := seq'\<rparr>"
    by (auto simp: AlgoRunner_run_def cpp_bind_eq_Inr)
  with Some assms(1) runner_inv_run impl_run_running show ?thesis by (auto simp: runner_ok_def)
qed

lemma AlgoRunner_get_ok:
  assumes "runner_ok h" and "AlgoRunner_get now script req resp0 h = Inr (rc, resp, h')"
  shows "runner_ok h' \<and> (outImpl h' = None \<longleftrightarrow> outImpl h = None)"
proof (cases "outImpl h")
  case None
  with assms show ?thesis by (auto simp: AlgoRunner_get_def)
next
  case (Some r)
  with assms obtain r' where "impl_get now script req resp0 r = Inr (rc, resp, r')"
      "h' = h\<lparr>outImpl := Some r'\<rparr>"
    by (auto simp: AlgoRunner_get_def cpp_bind_eq_Inr)
  with Some assms(1) runner_inv_get impl_get_running show ?thesis by (auto simp: runner_ok_def)
qed

lemma handleEnvelope_ok:
  assumes "runner_ok h" and "handleEnvelope env request caps response h = Inr (rc, resp, out, h')"
  shows "runner_ok h' \<and> (outImpl h' = None \<longleftrightarrow> outImpl h = None)"
proof (cases request)
  case None
  with assms show ?thesis by (simp add: handleEnvelope_def)
next
  case (Some req)
  show ?thesis
  proof (cases req)
    case (env_submit sreq)
    with Some assms show ?thesis
      by (auto simp: handleEnvelope_def cpp_bind_eq_Inr dest: AlgoRunner_run_ok split: if_splits)
  next
    case (env_get greq)
    with Some assms show ?thesis
      by (auto simp: handleEnvelope_def cpp_bind_eq_Inr dest: AlgoRunner_get_ok)
  qed
qed

text \<open>What a pass for a known and for an unknown client does to the application.\<close>

lemma handleRequest_effect:
  assumes "handleRequest cd env cid payload caps app = Inr (app', fs, e)"
  shows "app' = app \<or> (\<exists>request rc resp out h'. parse_req cd payload = Some request \<and>
    handleEnvelope (le_call env) request caps None (mAlgoRunner app) = Inr (rc, resp, out, h') \<and>
    app' = app\<lparr>mAlgoRunner := h'\<rparr>)"
proof (cases "parse_req cd payload")
  case None
  with assms show ?thesis by (auto simp: handleRequest_def split: prod.splits)
next
  case (Some request)
  with assms obtain rc resp out h' where
      "handleEnvelope (le_call env) request caps None (mAlgoRunner app) = Inr (rc, resp, out, h')"
      "app' = app\<lparr>mAlgoRunner := h'\<rparr>"
    by (auto simp: handleRequest_def cpp_bind_eq_Inr Let_def split: option.splits prod.splits)
  with Some show ?thesis by blast
qed

lemma handleHandshake_effect:
  assumes "handleHandshake cd env cid payload app = (app', fs, e)"
  shows "app' = app \<or> (\<exists>h. parse_handshake cd payload = Some h \<and>
    app' = app\<lparr>mClientExecCaps := (mClientExecCaps app)(cid \<mapsto> ucast (exec_functions h))\<rparr>)"
  using assms
  by (auto simp: handleHandshake_def Let_def split: option.splits if_splits prod.splits pass_end.splits)

lemma server_pass_cases:
  assumes "server_pass cd env app = Inr (app', fs, e)"
  obtains (nothing) "app' = app" "fs = []"
  | (handshake) cid rest where "le_recv env = Recv_frames (cid # rest)"
      "mClientExecCaps app cid = None"
      "handleHandshake cd env cid (last (cid # rest)) app = (app', fs, e)"
  | (request) cid rest caps where "le_recv env = Recv_frames (cid # rest)"
      "mClientExecCaps app cid = Some caps"
      "handleRequest cd env cid (last (cid # rest)) caps app = Inr (app', fs, e)"
proof (cases "le_recv env")
  case (Recv_frames frames)
  show ?thesis
  proof (cases frames)
    case Nil
    with Recv_frames assms show ?thesis by (simp add: server_pass_def)
  next
    case (Cons cid rest)
    with Recv_frames assms show ?thesis
      using handshake [of cid rest] request [of cid rest]
      by (cases "mClientExecCaps app cid") (simp_all add: server_pass_def Let_def del: last.simps)
  qed
qed (use assms nothing in \<open>auto simp: server_pass_def\<close>)

lemma server_inv_pass [inv_pres]:
  assumes inv: "server_inv app" and "server_pass cd env app = Inr (app', fs, e)"
  shows "server_inv app'"
  using assms(2)
proof (cases rule: server_pass_cases)
  case nothing
  with inv show ?thesis by simp
next
  case (handshake cid rest)
  with inv handleHandshake_effect [OF handshake(3)] show ?thesis by (auto simp: server_inv_def)
next
  case (request cid rest caps)
  from handleRequest_effect [OF request(3)] show ?thesis
  proof
    assume "app' = app"
    with inv show ?thesis by simp
  next
    assume "\<exists>req rc resp out h'. parse_req cd (last (cid # rest)) = Some req \<and>
      handleEnvelope (le_call env) req caps None (mAlgoRunner app) = Inr (rc, resp, out, h') \<and>
      app' = app\<lparr>mAlgoRunner := h'\<rparr>"
    then obtain req rc resp out h' where
        "handleEnvelope (le_call env) req caps None (mAlgoRunner app) = Inr (rc, resp, out, h')"
        "app' = app\<lparr>mAlgoRunner := h'\<rparr>" by blast
    with inv show ?thesis
      using handleEnvelope_ok [of "mAlgoRunner app"] by (fastforce simp: server_inv_def)
  qed
qed

lemma server_inv_background [inv_pres]:
  "server_inv app \<Longrightarrow> background ws app = Inr app' \<Longrightarrow> server_inv app'"
  by (auto simp: background_def server_inv_def runner_ok_def cpp_bind_eq_Inr
      intro: runner_inv_run_workers dest: run_workers_table split: option.splits)

lemma server_inv_reach: "server_reach cd app0 app fs \<Longrightarrow> server_inv app0 \<Longrightarrow> server_inv app"
  by (induction rule: server_reach.induct) (auto intro: inv_pres)

lemma server_inv_init_app:
  assumes "server_inv app" and "server_init_app site created bound app = Inr (rc, app')"
  shows "server_inv app'"
proof (cases "mInitialized app")
  case True
  with assms show ?thesis by (simp add: server_init_app_def)
next
  case False
  with assms(2) obtain h where h: "AlgoRunner_init created (mThreads app) (mAlgoRunner app) = Inr h"
      "mAlgoRunner app' = snd h"
    by (auto simp: server_init_app_def cpp_bind_eq_Inr Let_def split: if_splits)
  have "runner_ok (snd h) \<and> outImpl (snd h) \<noteq> None"
  proof (cases "outImpl (mAlgoRunner app)")
    case None
    with h(1) obtain rc' r where "impl_init created (AlgoRunnerIpml_new (mThreads app)) = Inr (rc', r)"
        "snd h = (mAlgoRunner app)\<lparr>outImpl := Some r\<rparr>"
      by (auto simp: AlgoRunner_init_def cpp_bind_eq_Inr)
    then show ?thesis
      using runner_inv_init [OF runner_inv_new] impl_init_running by (simp add: runner_ok_def AlgoRunnerIpml_new_def)
  next
    case (Some r)
    with h(1) assms(1) show ?thesis by (auto simp: AlgoRunner_init_def server_inv_def)
  qed
  with h(2) show ?thesis by (simp add: server_inv_def)
qed

section \<open>How a pass can fail\<close>

lemma compute_halt: "compute req = Inl h \<Longrightarrow> h = Signed_Overflow"
  by (auto simp: compute_def cpp_bind_eq_Inl i32_ops_defs
      split: option.splits Payload.splits MathOp.splits if_splits)

lemma worker_step_halt: "runner_inv r \<Longrightarrow> worker_step e r = Inl h \<Longrightarrow> h = Signed_Overflow"
proof (cases e)
  case (Publish i)
  assume inv: "runner_inv r" and "worker_step e r = Inl h"
  with Publish have pub: "worker_publish i r = Inl h" by simp
  then obtain a where a: "holds r i a" by (auto simp: worker_publish_def holds_def split: if_splits option.splits)
  with holds_allocated [OF inv] obtain job where "heap r a = Some job" by blast
  with a pub show ?thesis
    by (auto simp: worker_publish_def holds_def cpp_bind_eq_Inl dest: compute_halt)
qed simp

lemma run_workers_halt: "runner_inv r \<Longrightarrow> run_workers es r = Inl h \<Longrightarrow> h = Signed_Overflow"
  by (induction es arbitrary: r)
    (auto simp: cpp_bind_eq_Inl dest: worker_step_halt runner_inv_worker_step)

lemma wait_loop_halt:
  "runner_inv r \<Longrightarrow> wait_loop a timeout script r = Inl h \<Longrightarrow> h \<in> {Signed_Overflow, Blocked}"
proof (induction a timeout script r rule: wait_loop.induct)
  case (2 a timeout ws ret script r)
  then show ?case
    using run_workers_halt [of r ws h] runner_inv_run_workers [of r ws]
    by (auto simp: cpp_bind_eq_Inl split: if_splits)
qed (simp split: if_splits)

lemma impl_get_halt:
  assumes inv: "runner_inv r" and get: "impl_get now script req resp0 r = Inl h"
  shows "h \<in> {Signed_Overflow, Blocked}"
proof -
  from get obtain a where a: "jobs r (greq_id req) = Some a"
    by (auto simp: impl_get_def findJobById_def Let_def split: option.splits)
  have no: "collect_job (greq_id req) a resp0 r1 \<noteq> Inl h" if "runner_inv r1" "jobs r1 = jobs r" for r1
    using collect_job_returns [OF that(1), of "greq_id req" a resp0] that(2) a by auto
  show ?thesis
  proof (cases "greq_wait_mode req")
    case NO_WAIT
    with get a no [OF inv refl] show ?thesis by (simp add: impl_get_def findJobById_def Let_def)
  next
    case WAIT_UP_TO
    with get a consider "addMsToTimespec now (greq_timeout_ms req) = Inl h"
      | "wait_loop a 0 script r = Inl h"
      | r1 where "wait_loop a 0 script r = Inr r1" "collect_job (greq_id req) a resp0 r1 = Inl h"
      by (auto simp: impl_get_def findJobById_def Let_def cpp_bind_eq_Inl)
    then show ?thesis
    proof cases
      case 1
      then show ?thesis by (auto simp: addMsToTimespec_def Let_def split: if_splits)
    next
      case 2
      with inv show ?thesis by (rule wait_loop_halt)
    next
      case 3
      with inv no show ?thesis using runner_inv_wait_loop wait_loop_table by blast
    qed
  next
    case (GetWaitMode_other n)
    with get a show ?thesis by (simp add: impl_get_def findJobById_def Let_def)
  qed
qed

lemma runMath_halt: "runMath m r = Inl h \<Longrightarrow> h = Signed_Overflow"
  by (auto simp: cpp_bind_eq_Inl i32_ops_defs split: MathOp.splits if_splits)

lemma impl_run_halt:
  "impl_run site ts seq req resp0 r = Inl h \<Longrightarrow> h = Signed_Overflow"
  by (auto simp: impl_run_def Let_def cpp_bind_eq_Inl simp del: runMath.simps dest: runMath_halt
      split: SubmitMode.splits option.splits Payload.splits prod.splits if_splits)

lemma handleEnvelope_halt:
  assumes ok: "runner_ok runner" and he: "handleEnvelope env request caps response runner = Inl h"
  shows "h \<in> {Signed_Overflow, Blocked}"
proof -
  from he obtain req where req: "request = Some req"
    by (cases request) (auto simp: handleEnvelope_def)
  show ?thesis
  proof (cases req)
    case (env_submit sreq)
    with req he show ?thesis
      by (auto simp: handleEnvelope_def AlgoRunner_run_def cpp_bind_eq_Inl dest: impl_run_halt
          split: if_splits option.splits)
  next
    case (env_get greq)
    with req he obtain r where "outImpl runner = Some r"
        "impl_get (ce_now env) (ce_script env) greq GetResponse_default r = Inl h"
      by (auto simp: handleEnvelope_def AlgoRunner_get_def cpp_bind_eq_Inl split: option.splits)
    with ok show ?thesis by (auto simp: runner_ok_def dest: impl_get_halt)
  qed
qed

lemma server_pass_halt:
  assumes inv: "server_inv app" and "le_recv env \<noteq> Recv_frames []" and "server_pass cd env app = Inl h"
  shows "h \<in> {Signed_Overflow, Blocked}"
proof -
  from assms(2,3) obtain cid rest caps where
      "handleRequest cd env cid (last (cid # rest)) caps app = Inl h"
    by (auto simp: server_pass_def Let_def split: recv_outcome.splits list.splits option.splits
        simp del: last.simps)
  then obtain request where "handleEnvelope (le_call env) request caps None (mAlgoRunner app) = Inl h"
    by (auto simp: handleRequest_def cpp_bind_eq_Inl Let_def split: option.splits prod.splits)
  with inv show ?thesis by (auto simp: server_inv_def dest: handleEnvelope_halt)
qed

section \<open>Registrations\<close>

lemma caps_pass:
  assumes "mClientExecCaps app cid = Some caps" and "server_pass cd env app = Inr (app', fs, e)"
  shows "mClientExecCaps app' cid = Some caps"
  using assms(2)
proof (cases rule: server_pass_cases)
  case nothing
  with assms(1) show ?thesis by simp
next
  case (handshake cid' rest)
  with assms(1) show ?thesis using handleHandshake_effect [OF handshake(3)] by auto
next
  case (request cid' rest caps')
  with assms(1) show ?thesis using handleRequest_effect [OF request(3)] by auto
qed

lemma caps_background: "background ws app = Inr app' \<Longrightarrow> mClientExecCaps app' = mClientExecCaps app"
  by (auto simp: background_def cpp_bind_eq_Inr split: option.splits)

lemma caps_reach:
  "server_reach cd app0 app fs \<Longrightarrow> mClientExecCaps app0 cid = Some caps \<Longrightarrow>
    mClientExecCaps app cid = Some caps"
  by (induction rule: server_reach.induct) (auto simp: caps_background intro: caps_pass)

lemma initialized_pass:
  "server_pass cd env app = Inr (app', fs, e) \<Longrightarrow> mInitialized app' = mInitialized app"
  by (cases rule: server_pass_cases) (auto dest!: handleHandshake_effect handleRequest_effect)

lemma initialized_reach: "server_reach cd app0 app fs \<Longrightarrow> mInitialized app = mInitialized app0"
  by (induction rule: server_reach.induct)
    (auto simp: background_def cpp_bind_eq_Inr dest: initialized_pass split: option.splits)

section \<open>Replies\<close>

definition sends_ok :: "loop_env \<Rightarrow> bool" where
  "sends_ok env \<longleftrightarrow> (\<exists>n m. le_send1 env = Sent n \<and> le_send2 env = Sent m)"

lemma sendBadResponse_ok:
  "sends_ok env \<Longrightarrow> \<exists>body. sendBadResponse cd env cid = ([(cid, True), (body, False)], Continue)"
  by (auto simp: sends_ok_def sendBadResponse_def Let_def)

lemma sendReply_ok:
  "sends_ok env \<Longrightarrow> sendReply env cid body = ([(cid, True), (body, False)], Continue)"
  by (auto simp: sends_ok_def sendReply_def)

lemma pass_replies_to_sender:
  assumes "sends_ok env" and "le_recv env = Recv_frames (cid # rest)"
    and "server_pass cd env app = Inr (app', fs, e)"
  shows "e = Continue \<and> (fs = [] \<or> (\<exists>body. fs = [(cid, True), (body, False)]))"
proof -
  obtain bad where bad: "sendBadResponse cd env cid = ([(cid, True), (bad, False)], Continue)"
    using sendBadResponse_ok [OF assms(1)] by blast
  note reply = sendReply_ok [OF assms(1)]
  from assms(2,3) show ?thesis
    by (auto simp: server_pass_def Let_def handleHandshake_def handleRequest_def bad reply
        cpp_bind_eq_Inr simp del: last.simps split: option.splits if_splits)
qed

end
