(* ===== verification/Server_Protocol.thy ===== *)
theory Server_Protocol
  imports Server_Application
begin

text \<open>
  What the message loop of \<^verbatim>\<open>src/sources/server/application.cpp\<close> promises its
  clients: who is answered, which requests are carried out, and which clients may ask for what. The
  lifecycle of the singleton and the codes \<^verbatim>\<open>run\<close> returns close the theory.
\<close>

section \<open>One pass, on every branch\<close>

lemma pass_unknown:
  "le_recv env = Recv_frames (cid # rest) \<Longrightarrow> mClientExecCaps app cid = None \<Longrightarrow>
    server_pass cd env app = Inr (handleHandshake cd env cid (last (cid # rest)) app)"
  by (simp add: server_pass_def Let_def del: last.simps)

lemma pass_known:
  "le_recv env = Recv_frames (cid # rest) \<Longrightarrow> mClientExecCaps app cid = Some caps \<Longrightarrow>
    server_pass cd env app = handleRequest cd env cid (last (cid # rest)) caps app"
  by (simp add: server_pass_def Let_def del: last.simps)

text \<open>A request that is dispatched, serialised and sent.\<close>

lemma pass_answered:
  assumes "sends_ok env" and "le_recv env = Recv_frames (cid # rest)"
    and "mClientExecCaps app cid = Some caps" and "parse_req cd (last (cid # rest)) = Some request"
    and "handleEnvelope (le_call env) request caps None (mAlgoRunner app) = Inr (rc, resp, out, h')"
    and "ser_resp cd resp = Some body"
  shows "server_pass cd env app =
    Inr (app\<lparr>mAlgoRunner := h'\<rparr>, [(cid, True), (body, False)], Continue)"
  using assms(4-6) sendReply_ok [OF assms(1)]
  unfolding pass_known [OF assms(2,3)] by (simp add: handleRequest_def Let_def del: last.simps)

lemma handleEnvelope_refused:
  assumes "\<not> (\<exists>p. requested sreq = Some p \<and> p \<in> allowed caps)"
  shows "handleEnvelope env (Some (env_submit sreq)) caps None h =
    Inr (EC_SUCCESS, Some (resp_submit (SubmitResponse_default\<lparr>sresp_status := ST_ERROR_INVALID_INPUT\<rparr>)),
      no_output, h)"
  using assms capability_iff [of sreq caps] by (simp add: handleEnvelope_def mutable_submit_def)

lemma handleEnvelope_blocking:
  assumes "requested sreq = Some p" and "p \<in> allowed caps" and "sreq_mode sreq = BLOCKING"
    and "outImpl h = Some r"
  shows "handleEnvelope env (Some (env_submit sreq)) caps resp0 h =
    cpp_bind (compute sreq) (\<lambda>(st, res).
      Inr (EC_SUCCESS,
        Some (resp_submit \<lparr>sresp_status = st, sresp_ticket = None, sresp_result = Some res\<rparr>),
        PRINT_ERROR_NO_RET (Ipc_status st) (ce_site env), h))"
proof -
  obtain pl where "sreq_payload sreq = Some pl"
    using assms(1) by (cases "sreq_payload sreq") (simp_all add: requested_def)
  moreover have "clientHasCapabilityFor sreq caps" using assms(1,2) capability_iff by blast
  moreover have "h\<lparr>outImpl := Some r, static_seq := static_seq h\<rparr> = h" using assms(4) by simp
  ultimately show ?thesis
    using assms(4) impl_run_blocking [OF assms(3)]
    by (simp add: handleEnvelope_def AlgoRunner_run_def cpp_bind_def split: sum.split)
qed

text \<open>A blocking request of a client that may make it.\<close>

lemma pass_blocking:
  assumes "server_inv app \<and> mInitialized app \<and> mClientExecCaps app cid = Some caps"
    and "sends_ok env" and "le_recv env = Recv_frames (cid # rest)"
    and "parse_req cd (last (cid # rest)) = Some (Some (env_submit sreq))"
    and "sreq_mode sreq = BLOCKING" and "requested sreq = Some p" and "p \<in> allowed caps"
    and "compute sreq = Inr (st, res)"
    and "ser_resp cd (Some (resp_submit
      \<lparr>sresp_status = st, sresp_ticket = None, sresp_result = Some res\<rparr>)) = Some body"
  shows "server_pass cd env app = Inr (app, [(cid, True), (body, False)], Continue)"
proof -
  from assms(1) obtain r where "outImpl (mAlgoRunner app) = Some r" by (auto simp: server_inv_def)
  from handleEnvelope_blocking [OF assms(6,7,5) this, of "le_call env" None] assms(8)
  show ?thesis using pass_answered [OF assms(2,3) _ assms(4) _ assms(9)] assms(1) by simp
qed

lemma handshake_reply:
  assumes "sends_ok env" and "parse_handshake cd payload = Some hs"
  shows "\<exists>fs. handleHandshake cd env cid payload app =
      (app\<lparr>mClientExecCaps := (mClientExecCaps app)(cid \<mapsto> ucast (exec_functions hs))\<rparr>, fs, Continue) \<and>
    (fs = [] \<longleftrightarrow> verifyExecCaps (ucast (exec_functions hs)))"
  using sendBadResponse_ok [OF assms(1), of cd cid] assms(2)
  by (auto simp: handleHandshake_def Let_def)

section \<open>How the loop ends\<close>

text \<open>A send that does not come back without a value never makes a pass return from the loop.\<close>

lemma sendReply_no_return:
  "le_send1 env \<noteq> Send_none \<Longrightarrow> le_send2 env \<noteq> Send_none \<Longrightarrow>
    sendReply env cid body = (fs, e) \<Longrightarrow> e \<noteq> Return_with rc"
  by (cases "le_send1 env"; cases "le_send2 env") (auto simp: sendReply_def)

lemma sendBadResponse_no_return: "sendBadResponse cd env cid = (fs, e) \<Longrightarrow> e \<noteq> Return_with rc"
  by (cases "le_send1 env"; cases "le_send2 env") (auto simp: sendBadResponse_def Let_def)

lemma pass_no_return:
  assumes "le_send1 env \<noteq> Send_none" and "le_send2 env \<noteq> Send_none"
    and "server_pass cd env app = Inr (app', fs, e)"
  shows "e \<noteq> Return_with rc"
  using assms(3)
  by (auto simp: server_pass_def handleHandshake_def handleRequest_def cpp_bind_eq_Inr Let_def
      dest: sendBadResponse_no_return sendReply_no_return [OF assms(1,2)]
      split: recv_outcome.splits list.splits option.splits prod.splits if_splits pass_end.splits)

lemma loop_code:
  "server_loop cd evs app sent = Inr (rc, app', fs) \<Longrightarrow>
    \<forall>(stop, ws, env) \<in> set evs. le_send1 env \<noteq> Send_none \<and> le_send2 env \<noteq> Send_none \<Longrightarrow> rc = EC_SUCCESS"
proof (induction cd evs app sent rule: server_loop.induct)
  case (2 cd stop ws env evs app sent)
  show ?case
  proof (cases "mInitialized app \<and> \<not> stop")
    case True
    with 2(2) obtain app1 app2 gs e where st: "background ws app = Inr app1"
        "server_pass cd env app1 = Inr (app2, gs, e)"
      by (auto simp: cpp_bind_eq_Inr)
    with 2(3) have "e \<noteq> Return_with rc" for rc using pass_no_return [OF _ _ st(2)] by auto
    with 2 st True show ?thesis by (cases e) auto
  qed (use 2(2) in auto)
qed simp

lemma AlgoRunner_init_start:
  "threads \<ge> 0 \<Longrightarrow> AlgoRunner_init created threads AlgoRunner_new =
    Inr (EC_SUCCESS, AlgoRunner_new\<lparr>outImpl := Some ((AlgoRunnerIpml_new threads)\<lparr>
      workers := replicate (length (filter (\<lambda>c. c) (take (nat threads) created))) None, running := True\<rparr>)\<rparr>)"
  "threads < 0 \<Longrightarrow> AlgoRunner_init created threads AlgoRunner_new = Inl Length_Error"
  by (simp_all add: AlgoRunner_init_def AlgoRunner_new_def impl_init_def AlgoRunnerIpml_new_def)

text \<open>The initialisation of a new application, and what a deinitialisation leaves behind.\<close>

lemma init_app_fresh:
  assumes "0 \<le> threads"
  shows "\<exists>app. server_init_app site created bound (ServerApp_new address port threads) =
      Inr (if bound then EC_SUCCESS else EC_FAILURE, app) \<and>
    mInitialized app = bound \<and> outImpl (mAlgoRunner app) \<noteq> None \<and>
    (\<exists>h. AlgoRunner_deinit quiet_stop (mAlgoRunner app) = Inr (EC_SUCCESS, h))"
  using assms
  by (simp add: server_init_app_def ServerApp_new_def AlgoRunner_init_start AlgoRunner_deinit_def impl_deinit_def
      quiet_stop_def misses_broadcast_def)

lemma impl_deinit_code: "impl_deinit st r = Inr (rc, r') \<Longrightarrow> rc = EC_SUCCESS"
  by (auto simp: impl_deinit_def cpp_bind_eq_Inr split: if_splits)

lemma deinit_after:
  assumes "srvPtr g = Some app" and "mInitialized app" and "server_deinit site st g = Inr (rc, g')"
  shows "rc = EC_SUCCESS \<and> (\<exists>app'. server_get g' = Inr app' \<and> outImpl (mAlgoRunner app') = None \<and>
    server_run cd evs app' = Inr (EC_FAILURE, app', []) \<and> server_deinit site' st' g' = Inr (EC_FAILURE, g'))"
proof -
  from assms obtain rc1 h where d: "AlgoRunner_deinit st (mAlgoRunner app) = Inr (rc1, h)"
    by (auto simp: server_deinit_def server_deinit_app_def cpp_bind_eq_Inr)
  then have "rc1 = EC_SUCCESS" "outImpl h = None"
    by (auto simp: AlgoRunner_deinit_def cpp_bind_eq_Inr dest: impl_deinit_code split: option.splits)
  with assms d show ?thesis
    by (auto simp: server_deinit_def server_deinit_app_def server_get_def server_run_def)
qed

section \<open>A concrete exchange\<close>

text \<open>
  A codec that knows a few messages, each under a one-letter name, and a server whose client
  \<^verbatim>\<open>c1\<close> is registered with a given mask. The calls of the environment succeed.
\<close>

definition mul_request :: "i32 \<Rightarrow> i32 \<Rightarrow> SubmitRequest" where
  "mul_request a b =
     \<lparr>sreq_mode = BLOCKING, sreq_payload = Some (math \<lparr>math_op = MATH_MUL, math_a = a, math_b = b\<rparr>)\<rparr>"

definition demo_codec :: codec where
  "demo_codec =
     \<lparr>ser_handshake = (\<lambda>h. if h = \<lparr>client_name = ''c1'', exec_functions = 65\<rparr> then Some ''H'' else None),
      parse_handshake = (\<lambda>b. if b = ''H'' then Some \<lparr>client_name = ''c1'', exec_functions = 65\<rparr> else None),
      ser_req = (\<lambda>e. if e = Some (env_submit (mul_request 6 7)) then Some ''M'' else None),
      parse_req = (\<lambda>b. if b = ''M'' then Some (Some (env_submit (mul_request 6 7)))
        else if b = ''O'' then Some (Some (env_submit (mul_request 65536 65536)))
        else if b = ''S'' then Some (Some (env_submit ((sum_request 2 3)\<lparr>sreq_mode := BLOCKING\<rparr>))) else None),
      ser_resp = (\<lambda>e. case e of
          Some (resp_submit s) \<Rightarrow> Some (if sresp_status s = ST_SUCCESS then ''R'' else ''E'')
        | _ \<Rightarrow> Some ''B''),
      parse_resp = (\<lambda>b. if b = ''R'' then
          Some (Some (resp_submit \<lparr>sresp_status = ST_SUCCESS, sresp_ticket = None,
            sresp_result = Some (Some (int_result 42))\<rparr>)) else None)\<rparr>"

definition demo_env :: "string list \<Rightarrow> loop_env" where
  "demo_env frames =
     \<lparr>le_recv = Recv_frames frames, le_send1 = Sent 2, le_send2 = Sent 1,
      le_call = \<lparr>ce_site = \<lparr>site_file = ''application.cpp'', site_line = 207, site_func = ''run'',
          site_msg = None\<rparr>,
        ce_clock = 5, ce_now = \<lparr>tv_sec = 0, tv_nsec = 0\<rparr>, ce_script = []\<rparr>\<rparr>"

definition demo_runner :: AlgoRunnerIpml where
  "demo_runner = (AlgoRunnerIpml_new 1)\<lparr>workers := [None], running := True\<rparr>"

definition demo_server :: "u8 \<Rightarrow> ServerApp" where
  "demo_server caps = (ServerApp_new ''*'' 5555 1)\<lparr>mClientExecCaps := [''c1'' \<mapsto> caps],
     mAlgoRunner := \<lparr>outImpl = Some demo_runner, static_seq = 0\<rparr>, mInitialized := True\<rparr>"

lemma demo_env_simps [simp]:
  "le_recv (demo_env fs) = Recv_frames fs" "sends_ok (demo_env fs)"
  by (simp_all add: demo_env_def sends_ok_def)

lemma demo_server_simps [simp]:
  "mClientExecCaps (demo_server caps) = [''c1'' \<mapsto> caps]" "mInitialized (demo_server caps)"
  "mAlgoRunner (demo_server caps) = \<lparr>outImpl = Some demo_runner, static_seq = 0\<rparr>"
  by (simp_all add: demo_server_def)

lemma demo_codec_simps [simp]:
  "parse_handshake demo_codec ''H'' = Some \<lparr>client_name = ''c1'', exec_functions = 65\<rparr>"
  "parse_req demo_codec ''M'' = Some (Some (env_submit (mul_request 6 7)))"
  "parse_req demo_codec ''O'' = Some (Some (env_submit (mul_request 65536 65536)))"
  "parse_req demo_codec ''S'' = Some (Some (env_submit ((sum_request 2 3)\<lparr>sreq_mode := BLOCKING\<rparr>)))"
  "ser_resp demo_codec (Some (resp_get g)) = Some ''B''"
  "ser_resp demo_codec (Some (resp_submit s)) = Some (if sresp_status s = ST_SUCCESS then ''R'' else ''E'')"
  by (simp_all add: demo_codec_def)

lemma demo_server_inv: "server_inv (demo_server caps)"
proof -
  have "impl_init [True] (AlgoRunnerIpml_new 1) = Inr (EC_SUCCESS, demo_runner)"
    by (simp add: impl_init_def demo_runner_def AlgoRunnerIpml_new_def)
  then have "runner_inv demo_runner"
    using runner_inv_init [OF runner_inv_new] by (simp add: AlgoRunnerIpml_new_def)
  moreover have "running demo_runner" by (simp add: demo_runner_def)
  ultimately show ?thesis by (simp add: server_inv_def runner_ok_def)
qed

lemma mul_request_simps [simp]:
  "sreq_mode (mul_request a b) = BLOCKING" "requested (mul_request a b) = Some Op_mult"
  "sreq_payload (mul_request a b) = Some (math \<lparr>math_op = MATH_MUL, math_a = a, math_b = b\<rparr>)"
  "compute (mul_request 6 7) = Inr (ST_SUCCESS, Some (int_result 42))"
  by (simp_all add: mul_request_def requested_def compute_def mul_i32_def in_i32_def)

section \<open>Properties\<close>

text \<open>
  C5: capabilities are enforced for the whole life of a connection. A client registered with a mask
  still has exactly that mask in every later state of the server, and whenever it submits a request for
  an operation the mask does not allow (or for no known operation at all), the server answers that
  client with \<open>ERROR_INVALID_INPUT\<close> and nothing else changes: no job is queued, no ticket issued.
\<close>

theorem capabilities_enforced:
  assumes "mClientExecCaps app0 cid = Some caps" and "server_reach cd app0 app sent"
  shows "mClientExecCaps app cid = Some caps \<and>
    (\<forall>env rest sreq body. sends_ok env \<longrightarrow> le_recv env = Recv_frames (cid # rest) \<longrightarrow>
       parse_req cd (last (cid # rest)) = Some (Some (env_submit sreq)) \<longrightarrow>
       \<not> (\<exists>p. requested sreq = Some p \<and> p \<in> allowed caps) \<longrightarrow>
       ser_resp cd (Some (resp_submit
         (SubmitResponse_default\<lparr>sresp_status := ST_ERROR_INVALID_INPUT\<rparr>))) = Some body \<longrightarrow>
       server_pass cd env app = Inr (app, [(cid, True), (body, False)], Continue))"
proof -
  have mask: "mClientExecCaps app cid = Some caps" using caps_reach [OF assms(2,1)] .
  then show ?thesis using pass_answered [OF _ _ mask _ handleEnvelope_refused] by simp
qed

theorem capabilities_enforced_witness:
  "mClientExecCaps (demo_server 1) ''c1'' = Some 1 \<and>
   server_pass demo_codec (demo_env [''c1'', ''M'']) (demo_server 1) =
     Inr (demo_server 1, [(''c1'', True), (''E'', False)], Continue)"
proof -
  have "\<not> (\<exists>p. requested (mul_request 6 7) = Some p \<and> p \<in> allowed 1)"
    by (simp add: allowed_def)
  then show ?thesis
    using capabilities_enforced [of "demo_server 1" "''c1''" 1, OF _ server_reach.start [of demo_codec],
        THEN conjunct2, rule_format, of "demo_env [''c1'', ''M'']" "[''M'']" "mul_request 6 7" "''E''"]
    by (simp add: SubmitResponse_default_def)
qed

text \<open>
  C20: a blocking request is answered in the same pass. If the client's mask allows the operation and
  its arithmetic is defined, the reply goes to the sender and carries exactly the status and the result
  of the computation; the state of the server does not change.
\<close>

theorem blocking_request_answered:
  assumes "server_inv app" and "mInitialized app"
    and "sends_ok env" and "le_recv env = Recv_frames (cid # rest)"
    and "mClientExecCaps app cid = Some caps"
    and "parse_req cd (last (cid # rest)) = Some (Some (env_submit sreq))"
    and "sreq_mode sreq = BLOCKING" and "requested sreq = Some p" and "p \<in> allowed caps"
    and "compute sreq = Inr (st, res)"
    and "ser_resp cd (Some (resp_submit
      \<lparr>sresp_status = st, sresp_ticket = None, sresp_result = Some res\<rparr>)) = Some body"
  shows "server_pass cd env app = Inr (app, [(cid, True), (body, False)], Continue)"
  using pass_blocking [OF _ assms(3,4,6-11)] assms(1,2,5) by blast

theorem blocking_request_answered_witness:
  "server_pass demo_codec (demo_env [''c1'', ''M'']) (demo_server 4) =
     Inr (demo_server 4, [(''c1'', True), (''R'', False)], Continue)"
proof -
  have "Op_mult \<in> allowed 4" by (simp add: allowed_def)
  then show ?thesis
    by (intro blocking_request_answered [OF demo_server_inv, where sreq = "mul_request 6 7" and caps = 4
          and rest = "[''M'']" and p = Op_mult and st = ST_SUCCESS and res = "Some (int_result 42)"]) simp_all
qed

text \<open>
  C21: a reply goes to the client whose message is being handled and to no other. When the socket
  accepts what is sent, one pass sends either nothing or exactly one reply of two frames, the first of
  which is the identity of the sender, and the loop goes on.
\<close>

theorem replies_only_to_sender:
  assumes "sends_ok env" and "le_recv env = Recv_frames (cid # rest)"
    and "server_pass cd env app = Inr (app', fs, e)"
  shows "e = Continue \<and> (fs = [] \<or> (\<exists>body. fs = [(cid, True), (body, False)]))"
  using assms by (rule pass_replies_to_sender)

theorem replies_only_to_sender_witness:
  "\<exists>app' fs e. server_pass demo_codec (demo_env [''c2'', ''x'']) (demo_server 4) = Inr (app', fs, e) \<and>
     fs \<noteq> [] \<and> e = Continue \<and> (fs = [] \<or> (\<exists>body. fs = [(''c2'', True), (body, False)]))"
proof -
  have "\<exists>app' fs e. server_pass demo_codec (demo_env [''c2'', ''x'']) (demo_server 4) = Inr (app', fs, e) \<and> fs \<noteq> []"
    by (simp add: server_pass_def handleHandshake_def demo_codec_def sendBadResponse_def demo_env_def)
  then obtain app' fs e where p:
      "server_pass demo_codec (demo_env [''c2'', ''x'']) (demo_server 4) = Inr (app', fs, e)" "fs \<noteq> []"
    by blast
  from replies_only_to_sender [OF _ _ p(1)] have "e = Continue \<and> (fs = [] \<or> (\<exists>body. fs = [(''c2'', True), (body, False)]))"
    by simp
  with p show ?thesis by blast
qed

text \<open>
  C22: the first message of an unknown client registers it. The mask stored is the low byte of the
  handshake's field, no other registration changes, and the client hears from the server exactly when
  the mask is not a valid one.
\<close>

theorem handshake_registers:
  assumes "sends_ok env" and "le_recv env = Recv_frames (cid # rest)"
    and "mClientExecCaps app cid = None"
    and "parse_handshake cd (last (cid # rest)) = Some hs"
  shows "\<exists>fs. server_pass cd env app =
      Inr (app\<lparr>mClientExecCaps := (mClientExecCaps app)(cid \<mapsto> ucast (exec_functions hs))\<rparr>, fs, Continue) \<and>
    (fs = [] \<longleftrightarrow> verifyExecCaps (ucast (exec_functions hs)))"
  using handshake_reply [OF assms(1,4)] unfolding pass_unknown [OF assms(2,3)] by simp

theorem handshake_registers_witness:
  "\<exists>fs. server_pass demo_codec (demo_env [''c2'', ''H'']) (demo_server 4) =
      Inr ((demo_server 4)\<lparr>mClientExecCaps := [''c1'' \<mapsto> 4, ''c2'' \<mapsto> 65]\<rparr>, fs, Continue) \<and> fs \<noteq> []"
proof -
  have "\<not> verifyExecCaps 65" by (simp add: verify_iff)
  then show ?thesis
    using handshake_registers [of "demo_env [''c2'', ''H'']" "''c2''" "[''H'']" "demo_server 4" demo_codec]
    by auto
qed

text \<open>
  C10: the server stays sound and has defined behaviour. From the successful initialisation of a new
  application, in every state the loop can reach the invariant holds, and a pass fails to complete only
  by an overflow of the arithmetic a request asks for, or because it is still waiting for a worker.
  No null pointer and no empty queue is ever touched.
\<close>

theorem server_loop_safe:
  assumes "server_init_app site created bound (ServerApp_new address port threads) = Inr (EC_SUCCESS, app0)"
    and "server_reach cd app0 app sent" and "le_recv env \<noteq> Recv_frames []"
  shows "server_inv app \<and>
    (\<forall>h. server_pass cd env app = Inl h \<longrightarrow> h \<in> {Signed_Overflow, Blocked})"
proof -
  have "server_inv (ServerApp_new address port threads)"
    by (simp add: server_inv_def runner_ok_def ServerApp_new_def AlgoRunner_new_def)
  with assms(1) have "server_inv app0" by (rule server_inv_init_app [rotated])
  with assms(2) have "server_inv app" by (rule server_inv_reach)
  with server_pass_halt assms(3) show ?thesis by blast
qed

theorem server_loop_safe_witness:
  "\<exists>app0. server_init_app \<lparr>site_file = [], site_line = 61, site_func = [], site_msg = None\<rparr> [True, True] True
       (ServerApp_new ''*'' 5555 2) = Inr (EC_SUCCESS, app0) \<and>
     server_inv app0 \<and>
     (\<forall>h. server_pass demo_codec (demo_env [''c1'', ''H'']) app0 = Inl h \<longrightarrow> h \<in> {Signed_Overflow, Blocked})"
proof -
  obtain app0 where init: "server_init_app \<lparr>site_file = [], site_line = 61, site_func = [], site_msg = None\<rparr>
      [True, True] True (ServerApp_new ''*'' 5555 2) = Inr (EC_SUCCESS, app0)"
    by (simp add: server_init_app_def ServerApp_new_def AlgoRunner_init_def AlgoRunner_new_def
        impl_init_def AlgoRunnerIpml_new_def Let_def)
  with server_loop_safe [OF init server_reach.start, of "demo_env [''c1'', ''H'']" demo_codec]
  show ?thesis by simp
qed

text \<open>
  C32: any client that may multiply can take the server into undefined behaviour: a blocking request
  whose product does not fit 32 bits overflows a signed integer in the thread that handles messages.
\<close>

theorem remote_overflow:
  assumes "server_inv app" and "mInitialized app" and "le_recv env = Recv_frames (cid # rest)"
    and "mClientExecCaps app cid = Some caps" and "Op_mult \<in> allowed caps"
    and "parse_req cd (last (cid # rest)) = Some (Some (env_submit (mul_request a b)))"
    and "\<not> in_i32 (sint a * sint b)"
  shows "server_pass cd env app = Inl Signed_Overflow"
proof -
  from assms(1,2) obtain r where r: "outImpl (mAlgoRunner app) = Some r" by (auto simp: server_inv_def)
  have "compute (mul_request a b) = Inl Signed_Overflow"
    using assms(7) by (simp add: compute_def mul_i32_def)
  with handleEnvelope_blocking [of "mul_request a b", OF _ assms(5) _ r, of "le_call env" None] assms(6)
  show ?thesis unfolding pass_known [OF assms(3,4)] by (simp add: handleRequest_def del: last.simps)
qed

theorem remote_overflow_witness:
  "server_pass demo_codec (demo_env [''c1'', ''O'']) (demo_server 4) = Inl Signed_Overflow"
  by (rule remote_overflow [OF demo_server_inv, where cid = "''c1''" and rest = "[''O'']" and caps = 4
        and a = 65536 and b = 65536])
    (simp_all add: allowed_def in_i32_def)

text \<open>
  C33: a handshake with an invalid mask is refused in words only. An unknown client that sends one
  receives the error reply, but is registered all the same: in every later state of the server its
  blocking requests for an operation among the valid bits of that mask are answered with the computed
  result, like those of any other client.
\<close>

theorem refused_client_is_served:
  assumes "server_inv app0" and "mInitialized app0"
    and "sends_ok env" and "le_recv env = Recv_frames (cid # rest)" and "mClientExecCaps app0 cid = None"
    and "parse_handshake cd (last (cid # rest)) = Some hs"
    and "caps = ucast (exec_functions hs)" and "\<not> verifyExecCaps caps"
    and "ser_resp cd (Some (resp_get (GetResponse_default\<lparr>gresp_status := ST_ERROR_INVALID_INPUT\<rparr>))) = Some bad"
  shows "\<exists>app1. server_pass cd env app0 = Inr (app1, [(cid, True), (bad, False)], Continue) \<and>
    (\<forall>app sent env' rest' sreq p st res body.
       server_reach cd app1 app sent \<longrightarrow> sends_ok env' \<longrightarrow> le_recv env' = Recv_frames (cid # rest') \<longrightarrow>
       parse_req cd (last (cid # rest')) = Some (Some (env_submit sreq)) \<longrightarrow>
       sreq_mode sreq = BLOCKING \<longrightarrow> requested sreq = Some p \<longrightarrow> p \<in> allowed caps \<longrightarrow>
       compute sreq = Inr (st, res) \<longrightarrow>
       ser_resp cd (Some (resp_submit
         \<lparr>sresp_status = st, sresp_ticket = None, sresp_result = Some res\<rparr>)) = Some body \<longrightarrow>
       server_pass cd env' app = Inr (app, [(cid, True), (body, False)], Continue))"
proof -
  define app1 where "app1 = app0\<lparr>mClientExecCaps := (mClientExecCaps app0)(cid \<mapsto> caps)\<rparr>"
  have bad: "sendBadResponse cd env cid = ([(cid, True), (bad, False)], Continue)"
    using assms(3,9) by (auto simp: sends_ok_def sendBadResponse_def Let_def)
  have pass: "server_pass cd env app0 = Inr (app1, [(cid, True), (bad, False)], Continue)"
    using assms(6-8) unfolding pass_unknown [OF assms(4,5)]
    by (simp add: handleHandshake_def Let_def bad app1_def del: last.simps)
  have inv1: "server_inv app1" using server_inv_pass [OF assms(1) pass] .
  have later: "server_inv app \<and> mInitialized app \<and> mClientExecCaps app cid = Some caps"
    if "server_reach cd app1 app sent" for app sent
    using server_inv_reach [OF that inv1] initialized_reach [OF that] caps_reach [OF that, of cid] assms(2)
    by (simp add: app1_def)
  show ?thesis
    by (intro exI [of _ app1] conjI pass allI impI, rule pass_blocking)
      (use later in \<open>blast+\<close>)
qed

theorem refused_client_is_served_witness:
  "\<exists>app1. server_pass demo_codec (demo_env [''c2'', ''H'']) (demo_server 4) =
      Inr (app1, [(''c2'', True), (''B'', False)], Continue) \<and>
    server_pass demo_codec (demo_env [''c2'', ''S'']) app1 =
      Inr (app1, [(''c2'', True), (''R'', False)], Continue)"
proof -
  have "\<not> verifyExecCaps 65" and add: "Op_add \<in> allowed 65" by (simp_all add: verify_iff allowed_def)
  then obtain app1 where app1: "server_pass demo_codec (demo_env [''c2'', ''H'']) (demo_server 4) =
      Inr (app1, [(''c2'', True), (''B'', False)], Continue)"
    and later: "\<forall>app sent env' rest' sreq p st res body.
       server_reach demo_codec app1 app sent \<longrightarrow> sends_ok env' \<longrightarrow> le_recv env' = Recv_frames (''c2'' # rest') \<longrightarrow>
       parse_req demo_codec (last (''c2'' # rest')) = Some (Some (env_submit sreq)) \<longrightarrow>
       sreq_mode sreq = BLOCKING \<longrightarrow> requested sreq = Some p \<longrightarrow> p \<in> allowed 65 \<longrightarrow>
       compute sreq = Inr (st, res) \<longrightarrow>
       ser_resp demo_codec (Some (resp_submit
         \<lparr>sresp_status = st, sresp_ticket = None, sresp_result = Some res\<rparr>)) = Some body \<longrightarrow>
       server_pass demo_codec env' app = Inr (app, [(''c2'', True), (body, False)], Continue)"
    using refused_client_is_served [of "demo_server 4" "demo_env [''c2'', ''H'']" "''c2''" "[''H'']" demo_codec
        "\<lparr>client_name = ''c1'', exec_functions = 65\<rparr>" 65 "''B''"] demo_server_inv by auto
  have "requested ((sum_request 2 3)\<lparr>sreq_mode := BLOCKING\<rparr>) = Some Op_add"
      "compute ((sum_request 2 3)\<lparr>sreq_mode := BLOCKING\<rparr>) = Inr (ST_SUCCESS, Some (int_result 5))"
    by (simp_all add: requested_def sum_request_def compute_def add_i32_def in_i32_def)
  with add app1 later [rule_format, OF server_reach.start, of "demo_env [''c2'', ''S'']" "[''S'']"
      "(sum_request 2 3)\<lparr>sreq_mode := BLOCKING\<rparr>" Op_add ST_SUCCESS "Some (int_result 5)" "''R''"]
  show ?thesis by auto
qed

text \<open>
  C36: the code \<^verbatim>\<open>run\<close> returns does not tell errors from a clean stop. On an
  initialised application an exception of the receive, whatever its number, ends the loop with
  \<^const>\<open>EC_SUCCESS\<close>, as a set stop flag does; a code other than success is only
  returned when a send yields no value.
\<close>

theorem run_hides_errors:
  assumes "mInitialized app"
  shows "server_run cd ((True, ws, env) # evs) app = Inr (EC_SUCCESS, app, []) \<and>
    server_run cd ((False, [], env\<lparr>le_recv := Recv_error n\<rparr>) # evs) app = Inr (EC_SUCCESS, app, []) \<and>
    (\<forall>rc app' fs. server_run cd evs app = Inr (rc, app', fs) \<longrightarrow>
       (\<forall>(stop, ws, env) \<in> set evs. le_send1 env \<noteq> Send_none \<and> le_send2 env \<noteq> Send_none) \<longrightarrow>
       rc = EC_SUCCESS)"
proof (intro conjI)
  show "server_run cd ((True, ws, env) # evs) app = Inr (EC_SUCCESS, app, [])"
    using assms by (simp add: server_run_def)
  show "server_run cd ((False, [], env\<lparr>le_recv := Recv_error n\<rparr>) # evs) app = Inr (EC_SUCCESS, app, [])"
    using assms by (auto simp: server_run_def background_def server_pass_def split: option.split)
  show "\<forall>rc app' fs. server_run cd evs app = Inr (rc, app', fs) \<longrightarrow>
       (\<forall>(stop, ws, env) \<in> set evs. le_send1 env \<noteq> Send_none \<and> le_send2 env \<noteq> Send_none) \<longrightarrow>
       rc = EC_SUCCESS"
    using assms loop_code by (fastforce simp: server_run_def)
qed

theorem run_hides_errors_witness:
  "server_run demo_codec [(False, [], (demo_env [])\<lparr>le_recv := Recv_error 88\<rparr>)] (demo_server 4) =
     Inr (EC_SUCCESS, demo_server 4, [])"
  using run_hides_errors [of "demo_server 4" demo_codec "[]" "demo_env []" "[]" 88] by simp

text \<open>
  C28: the lifecycle of the server object, for any thread count that is not negative. With no instance,
  \<^verbatim>\<open>init\<close> fails and \<^verbatim>\<open>deinit\<close> succeeds without effect. The first
  creation succeeds, a second one is refused and changes nothing; before initialisation
  \<^verbatim>\<open>run\<close> and \<^verbatim>\<open>deinit\<close> fail without effect. Initialisation
  succeeds exactly when the socket can be bound; after a failed one it can be tried again with the same
  outcome rule, after a successful one a further attempt fails without effect. From then on, in whatever
  state the message loop has left the application, a deinitialisation that returns has succeeded, the
  runner is gone and \<^verbatim>\<open>run\<close> and \<^verbatim>\<open>deinit\<close> fail again; and
  with no worker in the middle of a step it does return.
\<close>

theorem server_lifecycle:
  assumes "0 \<le> threads"
  shows "server_init site created bound server_globals_start = Inr (EC_FAILURE, server_globals_start) \<and>
    server_deinit site st server_globals_start = Inr (EC_SUCCESS, server_globals_start) \<and>
    (\<exists>g1 g2 app1 app2.
       server_create address port threads server_globals_start = (EC_SUCCESS, g1) \<and> server_get g1 = Inr app1 \<and>
       server_create address' port' threads' g1 = (EC_FAILURE, g1) \<and>
       server_run cd evs app1 = Inr (EC_FAILURE, app1, []) \<and>
       server_deinit site st g1 = Inr (EC_FAILURE, g1) \<and>
       server_init site created bound g1 = Inr (if bound then EC_SUCCESS else EC_FAILURE, g2) \<and>
       server_get g2 = Inr app2 \<and>
       (if bound then
          server_init site created' bound' g2 = Inr (EC_FAILURE, g2) \<and>
          (\<exists>g3. server_deinit site quiet_stop g2 = Inr (EC_SUCCESS, g3)) \<and>
          (\<forall>app sent st' rc g3. server_reach cd app2 app sent \<longrightarrow>
             server_deinit site st' (g2\<lparr>srvPtr := Some app\<rparr>) = Inr (rc, g3) \<longrightarrow>
             rc = EC_SUCCESS \<and>
             (\<exists>app3. server_get g3 = Inr app3 \<and> outImpl (mAlgoRunner app3) = None \<and>
                server_run cd evs app3 = Inr (EC_FAILURE, app3, []) \<and>
                server_deinit site st g3 = Inr (EC_FAILURE, g3)))
        else
          (\<exists>g3. server_init site created' bound' g2 = Inr (if bound' then EC_SUCCESS else EC_FAILURE, g3))))"
proof -
  let ?app1 = "ServerApp_new address port threads"
  let ?g1 = "\<lparr>srvPtr = Some ?app1, srvInstances = 1\<rparr>"
  obtain app2 where init: "server_init_app site created bound ?app1 =
        Inr (if bound then EC_SUCCESS else EC_FAILURE, app2)"
      "mInitialized app2 = bound" "outImpl (mAlgoRunner app2) \<noteq> None"
      "\<exists>h. AlgoRunner_deinit quiet_stop (mAlgoRunner app2) = Inr (EC_SUCCESS, h)"
    using init_app_fresh [OF assms] by blast
  let ?g2 = "\<lparr>srvPtr = Some app2, srvInstances = 1\<rparr>"
  have again: "\<exists>g3. server_init site created' bound' ?g2 = Inr (if bound' then EC_SUCCESS else EC_FAILURE, g3)"
    if "\<not> bound"
    using init(2,3) that by (auto simp: server_init_def server_init_app_def AlgoRunner_init_def)
  have quiet: "\<exists>g3. server_deinit site quiet_stop ?g2 = Inr (EC_SUCCESS, g3)" if bound
    using init(2,4) that by (auto simp: server_deinit_def server_deinit_app_def)
  have ends: "rc = EC_SUCCESS \<and> (\<exists>app3. server_get g3 = Inr app3 \<and> outImpl (mAlgoRunner app3) = None \<and>
        server_run cd evs app3 = Inr (EC_FAILURE, app3, []) \<and> server_deinit site st g3 = Inr (EC_FAILURE, g3))"
    if bound "server_reach cd app2 app sent" "server_deinit site st' (?g2\<lparr>srvPtr := Some app\<rparr>) = Inr (rc, g3)"
    for app sent st' rc g3
    using deinit_after [of "?g2\<lparr>srvPtr := Some app\<rparr>" app] that init(2) initialized_reach [OF that(2)] by simp
  show ?thesis
    by (intro conjI exI [of _ ?g1] exI [of _ ?g2] exI [of _ ?app1] exI [of _ app2])
      (use init again quiet ends in \<open>simp_all add: server_init_def server_deinit_def server_globals_start_def
        server_create_def server_get_def server_run_def server_deinit_app_def server_init_app_def ServerApp_new_def\<close>)
qed

theorem server_lifecycle_witness:
  "\<exists>site g1 g2. server_create ''*'' 5555 1 server_globals_start = (EC_SUCCESS, g1) \<and>
     server_init site [True] True g1 = Inr (EC_SUCCESS, g2) \<and>
     server_init site [] True g2 = Inr (EC_FAILURE, g2) \<and>
     (\<exists>g3. server_deinit site quiet_stop g2 = Inr (EC_SUCCESS, g3))"
  using server_lifecycle [of 1 _ "[True]" True quiet_stop "''*''" 5555 "''*''" 5556 1 demo_codec "[]" "[]" True]
  by fastforce

end
