(* ===== verification/Client_Application.thy ===== *)
theory Client_Application
  imports Zmq_Calls Exec_Caps
begin

text \<open>
  The connection of the client, \<^verbatim>\<open>src/sources/client/application.cpp\<close>: the
  singleton, its random identity, the handshake, and the request-reply calls. The outcomes of
  ZeroMQ's calls are arguments (\<open>Zmq_Calls\<close>), the frames sent are results. An exception that no
  caller catches ends the call with \<^const>\<open>Uncaught\<close>.
\<close>

section \<open>State and lifecycle\<close>

text \<open>The draws of the generator are an argument, each between 0 and 61.\<close>

definition identity_chars :: string where
  "identity_chars = ''abcdefghijklmnopqrstuvwxyzABCDEFGHIJKLMNOPQRSTUVWXYZ0123456789''"

definition random_identity :: "nat list \<Rightarrow> string" where
  "random_identity draws = map (\<lambda>d. identity_chars ! d) draws"

definition draws_ok :: "nat list \<Rightarrow> bool" where
  "draws_ok draws \<longleftrightarrow> length draws = 8 \<and> (\<forall>d \<in> set draws. d < length identity_chars)"

record ClientApp =
  mSocket :: socket_state
  mIdentity :: string
  mEndpoint :: string
  mReceiveTimeoutMs :: int
  mClientPort :: int
  mExecFunFlags :: u8

definition ClientApp_new :: "nat list \<Rightarrow> string \<Rightarrow> int \<Rightarrow> int \<Rightarrow> u8 \<Rightarrow> ClientApp" where
  "ClientApp_new draws address port receiveTimeoutMs execFunFlags =
     \<lparr>mSocket = Sock_open, mIdentity = random_identity draws, mEndpoint = address,
      mReceiveTimeoutMs = receiveTimeoutMs, mClientPort = port, mExecFunFlags = execFunFlags\<rparr>"

record client_globals =
  cliPtr :: "ClientApp option"
  cliInstances :: int

definition client_globals_start :: client_globals where
  "client_globals_start = \<lparr>cliPtr = None, cliInstances = 0\<rparr>"

definition client_get :: "client_globals \<Rightarrow> ClientApp cpp" where
  "client_get g = (case cliPtr g of None \<Rightarrow> Inl Null_Deref | Some app \<Rightarrow> Inr app)"

definition client_create ::
  "nat list \<Rightarrow> string \<Rightarrow> int \<Rightarrow> int \<Rightarrow> u8 \<Rightarrow> client_globals \<Rightarrow> int \<times> client_globals" where
  "client_create draws address port receiveTimeoutMs execFunFlags g =
     (if cliInstances g \<ge> 1 then (EC_FAILURE, g)
      else
        let g' = g\<lparr>cliInstances := cliInstances g + 1\<rparr> in
        if cliPtr g' \<noteq> None then (EC_FAILURE, g')
        else (EC_SUCCESS,
          g'\<lparr>cliPtr := Some (ClientApp_new draws address port receiveTimeoutMs execFunFlags)\<rparr>))"

definition connect_address :: "ClientApp \<Rightarrow> string" where
  "connect_address app = ''tcp://'' @ mEndpoint app @ '':'' @ show_int (mClientPort app)"

section \<open>Sending and receiving\<close>

record client_env =
  cl_site :: check_site
  cl_send :: send_outcome
  cl_recv :: recv_outcome

text \<open>The body shared by both kinds of message: a failure to serialise, or one frame to the socket.\<close>

definition send_buffer :: "client_env \<Rightarrow> string option \<Rightarrow> (int \<times> frame list) cpp" where
  "send_buffer env serialized =
     (case serialized of
        None \<Rightarrow> Inr (EC_FAILURE, [])
      | Some buf \<Rightarrow>
          (case do_send (cl_send env) (buf, False) of
             (fs, Inl e) \<Rightarrow> Inl (Uncaught e)
           | (fs, Inr result) \<Rightarrow>
               (case RETURN_IF_ERROR (Zmq_status result) (cl_site env) of
                  Inl rc \<Rightarrow> Inr (rc, fs)
                | Inr _ \<Rightarrow> Inr (EC_SUCCESS, fs))))"

definition handshake_of :: "ClientApp \<Rightarrow> FirstHandshake" where
  "handshake_of app = \<lparr>client_name = mIdentity app, exec_functions = ucast (mExecFunFlags app)\<rparr>"

definition sendFirstHandshake :: "codec \<Rightarrow> client_env \<Rightarrow> ClientApp \<Rightarrow> (int \<times> frame list) cpp" where
  "sendFirstHandshake cd env app = send_buffer env (ser_handshake cd (handshake_of app))"

definition sendEnvelope :: "codec \<Rightarrow> client_env \<Rightarrow> EnvelopeReq \<Rightarrow> (int \<times> frame list) cpp" where
  "sendEnvelope cd env e = send_buffer env (ser_req cd e)"

text \<open>
  The code and the envelope, which is the fresh one unless parsing succeeded: no caller reads it then.
\<close>

definition recvEnvelope :: "codec \<Rightarrow> client_env \<Rightarrow> (int \<times> EnvelopeResp) cpp" where
  "recvEnvelope cd env =
     (case cl_recv env of
        Recv_error n \<Rightarrow> Inl (Uncaught n)
      | Recv_exception \<Rightarrow> Inl (Uncaught 0)
      | Recv_none \<Rightarrow> Inr (EC_FAILURE, None)
      | Recv_frames frames \<Rightarrow>
          if frames = [] then Inr (EC_FAILURE, None)
          else
            (case parse_resp cd (last frames) of
               None \<Rightarrow> Inr (EC_FAILURE, None)
             | Some resp \<Rightarrow> Inr (EC_SUCCESS, resp)))"

text \<open>
  \<open>connected\<close> is the number of the error one of the calls before the handshake throws, if one does.
  \<^verbatim>\<open>init\<close> catches \<^verbatim>\<open>zmq::error_t\<close>, that of the handshake too.
\<close>

definition client_init ::
  "codec \<Rightarrow> client_env \<Rightarrow> int option \<Rightarrow> ClientApp \<Rightarrow> int \<times> ClientApp \<times> frame list" where
  "client_init cd env connected app =
     (case connected of
        Some e \<Rightarrow> (EC_FAILURE, app, [])
      | None \<Rightarrow>
          let app' = app\<lparr>mSocket := Sock_connected (connect_address app)\<rparr> in
          (case sendFirstHandshake cd env app' of
             Inl h \<Rightarrow> (EC_FAILURE, app', [])
           | Inr (result, fs) \<Rightarrow>
               (case RETURN_IF_ERROR (Int_status result) (cl_site env) of
                  Inl rc \<Rightarrow> (rc, app', fs)
                | Inr _ \<Rightarrow> (EC_SUCCESS, app', fs))))"

definition client_deinit :: "ClientApp \<Rightarrow> int \<times> ClientApp" where
  "client_deinit app = (EC_SUCCESS, app\<lparr>mSocket := Sock_closed\<rparr>)"

section \<open>Requests\<close>

text \<open>The common end of both submissions, from the receive on.\<close>

definition recv_submit ::
  "codec \<Rightarrow> client_env \<Rightarrow> SubmitResponse \<Rightarrow> frame list \<Rightarrow> (int \<times> SubmitResponse \<times> frame list) cpp" where
  "recv_submit cd env out fs =
     cpp_bind (recvEnvelope cd env) (\<lambda>(result, resp).
       if result \<noteq> EC_SUCCESS then Inr (EC_FAILURE, out\<lparr>sresp_status := ST_ERROR_INTERNAL\<rparr>, fs)
       else
         (case resp of
            Some (resp_submit s) \<Rightarrow> Inr (EC_SUCCESS, s, fs)
          | _ \<Rightarrow> Inr (EC_FAILURE, out\<lparr>sresp_status := ST_ERROR_INTERNAL\<rparr>, fs)))"

definition submitBlocking ::
  "codec \<Rightarrow> client_env \<Rightarrow> SubmitRequest \<Rightarrow> SubmitResponse \<Rightarrow> (int \<times> SubmitResponse \<times> frame list) cpp" where
  "submitBlocking cd env req out =
     cpp_bind (sendEnvelope cd env (Some (env_submit (req\<lparr>sreq_mode := BLOCKING\<rparr>)))) (\<lambda>(result, fs).
       if result \<noteq> EC_SUCCESS then Inr (EC_FAILURE, out\<lparr>sresp_status := ST_ERROR_INTERNAL\<rparr>, fs)
       else recv_submit cd env out fs)"

text \<open>The code of the send is not looked at.\<close>

definition submitNonBlocking ::
  "codec \<Rightarrow> client_env \<Rightarrow> SubmitRequest \<Rightarrow> SubmitResponse \<Rightarrow> (int \<times> SubmitResponse \<times> frame list) cpp" where
  "submitNonBlocking cd env req out =
     cpp_bind (sendEnvelope cd env (Some (env_submit (req\<lparr>sreq_mode := NONBLOCKING\<rparr>)))) (\<lambda>(_, fs).
       recv_submit cd env out fs)"

definition get_request :: "Ticket \<Rightarrow> GetWaitMode \<Rightarrow> u32 \<Rightarrow> GetRequest" where
  "get_request ticket waitMode timeoutMs =
     \<lparr>greq_ticket = Some ticket, greq_wait_mode = waitMode,
      greq_timeout_ms = (if waitMode = WAIT_UP_TO then timeoutMs else 0)\<rparr>"

definition getResult ::
  "codec \<Rightarrow> client_env \<Rightarrow> Ticket \<Rightarrow> GetWaitMode \<Rightarrow> u32 \<Rightarrow> GetResponse
    \<Rightarrow> (int \<times> GetResponse \<times> frame list) cpp" where
  "getResult cd env ticket waitMode timeoutMs out =
     cpp_bind (sendEnvelope cd env (Some (env_get (get_request ticket waitMode timeoutMs)))) (\<lambda>(result, fs).
       case RETURN_IF_ERROR (Int_status result) (cl_site env) of
         Inl rc \<Rightarrow> Inr (rc, out, fs)
       | Inr _ \<Rightarrow>
           cpp_bind (recvEnvelope cd env) (\<lambda>(result, resp).
             case RETURN_IF_ERROR (Int_status result) (cl_site env) of
               Inl rc \<Rightarrow> Inr (rc, out, fs)
             | Inr _ \<Rightarrow>
                 (case resp of
                    Some (resp_get g) \<Rightarrow> Inr (EC_SUCCESS, g, fs)
                  | _ \<Rightarrow> Inr (EC_FAILURE, out, fs))))"

section \<open>Making requests\<close>

definition makeMath :: "MathOp \<Rightarrow> i32 \<Rightarrow> i32 \<Rightarrow> SubmitRequest" where
  "makeMath p a b =
     SubmitRequest_default\<lparr>sreq_payload := Some (math \<lparr>math_op = p, math_a = a, math_b = b\<rparr>)\<rparr>"

definition makeStr :: "StrOp \<Rightarrow> string \<Rightarrow> string \<Rightarrow> SubmitRequest" where
  "makeStr p s1 s2 =
     SubmitRequest_default\<lparr>sreq_payload := Some (str \<lparr>str_op = p, str_s1 = s1, str_s2 = s2\<rparr>)\<rparr>"

section \<open>What the calls do\<close>

lemma send_buffer_ok: "cl_send env = Sent n \<Longrightarrow> send_buffer env (Some buf) = Inr (EC_SUCCESS, [(buf, False)])"
  by (simp add: send_buffer_def)

lemma send_buffer_frames:
  "send_buffer env ser = Inr (rc, fs) \<Longrightarrow>
    (rc = EC_SUCCESS \<and> (\<exists>buf. ser = Some buf \<and> fs = [(buf, False)])) \<or> (rc = EC_FAILURE \<and> fs = [])"
  by (cases "cl_send env") (auto simp: send_buffer_def split: option.splits)

lemma send_buffer_halt: "send_buffer env ser = Inl h \<Longrightarrow> \<exists>e. h = Uncaught e \<and> cl_send env = Send_error e"
  by (cases "cl_send env") (auto simp: send_buffer_def split: option.splits)

lemma recvEnvelope_halt:
  "recvEnvelope cd env = Inl h \<Longrightarrow> \<exists>e. h = Uncaught e \<and> cl_recv env \<in> {Recv_error e, Recv_exception}"
  by (auto simp: recvEnvelope_def split: recv_outcome.splits if_splits option.splits)

lemma recvEnvelope_ok:
  "cl_recv env = Recv_frames frames \<Longrightarrow> frames \<noteq> [] \<Longrightarrow> parse_resp cd (last frames) = Some resp \<Longrightarrow>
    recvEnvelope cd env = Inr (EC_SUCCESS, resp)"
  by (simp add: recvEnvelope_def)

lemma recv_submit_ok:
  "cl_recv env = Recv_frames frames \<Longrightarrow> frames \<noteq> [] \<Longrightarrow>
    parse_resp cd (last frames) = Some (Some (resp_submit s)) \<Longrightarrow>
    recv_submit cd env out fs = Inr (EC_SUCCESS, s, fs)"
  by (simp add: recv_submit_def recvEnvelope_ok)

lemma recv_submit_cases:
  assumes "recv_submit cd env out fs = Inr (rc, s, fs')"
  obtains (answer) frames where "rc = EC_SUCCESS" "fs' = fs" "cl_recv env = Recv_frames frames" "frames \<noteq> []"
      "parse_resp cd (last frames) = Some (Some (resp_submit s))"
  | (failed) "rc = EC_FAILURE" "fs' = fs" "s = out\<lparr>sresp_status := ST_ERROR_INTERNAL\<rparr>"
proof (cases "cl_recv env")
  case Recv_none
  with assms failed show ?thesis by (auto simp: recv_submit_def recvEnvelope_def EC_SUCCESS_def EC_FAILURE_def)
next
  case (Recv_frames frames)
  show ?thesis
  proof (cases "frames = [] \<or> parse_resp cd (last frames) = None")
    case True
    with Recv_frames have "recvEnvelope cd env = Inr (EC_FAILURE, None)"
      by (auto simp: recvEnvelope_def)
    with assms failed show ?thesis by (auto simp: recv_submit_def EC_SUCCESS_def EC_FAILURE_def)
  next
    case False
    then obtain resp where "parse_resp cd (last frames) = Some resp" "frames \<noteq> []" by auto
    with Recv_frames assms show ?thesis
      using answer [of frames] failed
      by (auto simp: recv_submit_def recvEnvelope_def split: option.splits EnvResp.splits)
  qed
qed (use assms in \<open>auto simp: recv_submit_def recvEnvelope_def\<close>)

end
