(* ===== verification/C_Text.thy ===== *)
theory C_Text
  imports Cpp_Std
begin

text \<open>
  The text functions of the C library that the client's command line uses: \<^verbatim>\<open>fgets\<close>,
  \<^verbatim>\<open>tolower\<close>, the conversions \<^verbatim>\<open>%s\<close>,
  \<^verbatim>\<open>%d\<close> and \<^verbatim>\<open>%u\<close> of
  \<^verbatim>\<open>sscanf\<close>, and \<^verbatim>\<open>strtoull\<close>. The locale is
  \<^verbatim>\<open>"C"\<close>, since the programs never set another. A C string is the list of its
  characters before the terminating zero.
\<close>

section \<open>Characters\<close>

definition is_space :: "char \<Rightarrow> bool" where
  "is_space c \<longleftrightarrow> of_char c = (32 :: nat) \<or> (9 \<le> (of_char c :: nat) \<and> of_char c \<le> (13 :: nat))"

definition is_digit :: "char \<Rightarrow> bool" where
  "is_digit c \<longleftrightarrow> 48 \<le> (of_char c :: nat) \<and> of_char c \<le> (57 :: nat)"

definition digit_value :: "char \<Rightarrow> nat" where
  "digit_value c = of_char c - 48"

definition tolower :: "char \<Rightarrow> char" where
  "tolower c = (if 65 \<le> (of_char c :: nat) \<and> of_char c \<le> (90 :: nat) then char_of (of_char c + 32 :: nat) else c)"

definition c_str :: "string \<Rightarrow> string" where
  "c_str s = takeWhile (\<lambda>c. c \<noteq> CHR 0x00) s"

section \<open>Reading a line\<close>

text \<open>
  \<^verbatim>\<open>fgets\<close> with a buffer of \<open>n\<close> bytes: at most \<open>n - 1\<close> characters, up to and
  including the first newline. The null pointer at the end of the input is \<^const>\<open>None\<close>.
\<close>

fun fgets_upto :: "nat \<Rightarrow> string \<Rightarrow> string \<times> string" where
  "fgets_upto 0 inp = ([], inp)"
| "fgets_upto (Suc n) [] = ([], [])"
| "fgets_upto (Suc n) (c # cs) =
     (if c = CHR 0x0A then ([c], cs)
      else let (l, rest) = fgets_upto n cs in (c # l, rest))"

definition fgets :: "nat \<Rightarrow> string \<Rightarrow> (string \<times> string) option" where
  "fgets n inp = (if inp = [] then None else Some (fgets_upto (n - 1) inp))"

section \<open>Scanning\<close>

definition skip_space :: "string \<Rightarrow> string" where
  "skip_space s = dropWhile is_space s"

text \<open>\<^verbatim>\<open>%<w>s\<close>: a matching or input failure is \<^const>\<open>None\<close>.\<close>

definition scan_s :: "nat \<Rightarrow> string \<Rightarrow> (string \<times> string) option" where
  "scan_s w inp =
     (let s = skip_space inp;
          tok = take w (takeWhile (\<lambda>c. \<not> is_space c) s)
      in if tok = [] then None else Some (tok, drop (length tok) s))"

text \<open>The common form of the decimal conversions: white space, an optional sign, digits.\<close>

definition read_sign :: "string \<Rightarrow> bool \<times> string" where
  "read_sign s =
     (case s of
        [] \<Rightarrow> (False, s)
      | c # cs \<Rightarrow> if c = CHR ''-'' then (True, cs) else if c = CHR ''+'' then (False, cs) else (False, s))"

definition read_nat :: "string \<Rightarrow> nat" where
  "read_nat ds = foldl (\<lambda>n c. 10 * n + digit_value c) 0 ds"

text \<open>The sign, the magnitude and the rest; \<^const>\<open>None\<close> when there are no digits.\<close>

definition scan_dec :: "string \<Rightarrow> (bool \<times> nat \<times> string) option" where
  "scan_dec inp =
     (let (neg, s) = read_sign (skip_space inp);
          ds = takeWhile is_digit s
      in if ds = [] then None else Some (neg, read_nat ds, drop (length ds) s))"

text \<open>
  \<^verbatim>\<open>%d\<close> into an \<^verbatim>\<open>int\<close>. The C standard leaves a value the
  object cannot hold undefined.
\<close>

definition scan_d :: "string \<Rightarrow> (i32 \<times> string) option cpp" where
  "scan_d inp =
     (case scan_dec inp of
        None \<Rightarrow> Inr None
      | Some (neg, n, rest) \<Rightarrow>
          let v = (if neg then - int n else int n) in
          if in_i32 v then Inr (Some (word_of_int v, rest)) else Inl Scan_Range)"

text \<open>\<^verbatim>\<open>%u\<close> into an \<^verbatim>\<open>unsigned\<close>; a minus sign negates modulo \<open>2 ^ 32\<close>.\<close>

definition scan_u :: "string \<Rightarrow> (u32 \<times> string) option cpp" where
  "scan_u inp =
     (case scan_dec inp of
        None \<Rightarrow> Inr None
      | Some (neg, n, rest) \<Rightarrow>
          if n < 2 ^ 32 then Inr (Some (if neg then - word_of_nat n else word_of_nat n, rest))
          else Inl Scan_Range)"

text \<open>
  \<^verbatim>\<open>strtoull(s, nullptr, 10)\<close>: 0 when nothing can be converted, the largest value
  when the number is out of range.
\<close>

definition strtoull :: "string \<Rightarrow> u64" where
  "strtoull inp =
     (case scan_dec inp of
        None \<Rightarrow> 0
      | Some (neg, n, rest) \<Rightarrow>
          if n \<ge> 2 ^ 64 then - 1
          else if neg then - word_of_nat n else word_of_nat n)"

section \<open>Facts about lines\<close>

lemma fgets_upto_append: "fgets_upto n inp = (l, rest) \<Longrightarrow> inp = l @ rest \<and> length l \<le> n"
  by (induction n inp arbitrary: l rule: fgets_upto.induct) (auto split: if_splits prod.splits)

lemma fgets_shrinks:
  assumes "fgets n inp = Some (l, rest)" and "2 \<le> n"
  shows "length rest < length inp"
proof (cases inp)
  case (Cons c cs)
  obtain m where "n = Suc (Suc m)" using assms(2) by (intro that [of "n - 2"]) simp
  with Cons assms(1) show ?thesis
    using fgets_upto_append [of m cs] by (auto simp: fgets_def split: if_splits prod.splits)
qed (use assms in \<open>simp add: fgets_def\<close>)

lemma fgets_line: "CHR 0x0A \<notin> set l \<Longrightarrow> length l < n \<Longrightarrow>
    fgets (Suc n) (l @ CHR 0x0A # rest) = Some (l @ [CHR 0x0A], rest)"
proof -
  have "fgets_upto m (l @ CHR 0x0A # rest) = (l @ [CHR 0x0A], rest)"
    if "CHR 0x0A \<notin> set l" "length l < m" for m
    using that
  proof (induction l arbitrary: m)
    case Nil
    then show ?case by (cases m) auto
  next
    case (Cons c l)
    then show ?case by (cases m) auto
  qed
  then show "CHR 0x0A \<notin> set l \<Longrightarrow> length l < n \<Longrightarrow> ?thesis" by (simp add: fgets_def)
qed

section \<open>Facts about numbers\<close>

lemma of_char_digit: "d < 10 \<Longrightarrow> of_char (digit_char d) = 48 + d"
  by (simp add: digit_char_def)

lemma digit_char_simps [simp]:
  assumes "d < 10"
  shows "is_digit (digit_char d)" "digit_value (digit_char d) = d" "\<not> is_space (digit_char d)"
    "digit_char d \<noteq> CHR ''-''" "digit_char d \<noteq> CHR ''+''"
proof -
  note d = of_char_digit [OF assms]
  show "is_digit (digit_char d)" "digit_value (digit_char d) = d" "\<not> is_space (digit_char d)"
    using assms d by (simp_all add: is_digit_def digit_value_def is_space_def)
  have "of_char (CHR ''-'') = (45 :: nat)" "of_char (CHR ''+'') = (43 :: nat)" by simp_all
  with d show "digit_char d \<noteq> CHR ''-''" "digit_char d \<noteq> CHR ''+''" by auto
qed

lemma show_nat_digits: "c \<in> set (show_nat n) \<Longrightarrow> \<exists>d < 10. c = digit_char d"
proof (induction n rule: show_nat.induct)
  case (1 n)
  show ?case
  proof (cases "n < 10")
    case True
    with 1(2) have "c = digit_char n" by (simp add: show_nat.simps [of n])
    with True show ?thesis by blast
  next
    case False
    with 1(2) consider "c \<in> set (show_nat (n div 10))" | "c = digit_char (n mod 10)"
      by (auto simp: show_nat.simps [of n])
    moreover have "n mod 10 < 10" by simp
    ultimately show ?thesis using 1(1) False by cases blast+
  qed
qed

lemma show_nat_nonempty [simp]: "show_nat n \<noteq> []"
  by (simp add: show_nat.simps [of n])

lemma read_nat_snoc: "read_nat (ds @ [c]) = 10 * read_nat ds + digit_value c"
  by (simp add: read_nat_def)

lemma read_show_nat [simp]: "read_nat (show_nat n) = n"
proof (induction n rule: show_nat.induct)
  case (1 n)
  show ?case
  proof (cases "n < 10")
    case True
    then show ?thesis by (simp add: show_nat.simps [of n] read_nat_def)
  next
    case False
    then have "show_nat n = show_nat (n div 10) @ [digit_char (n mod 10)]"
      by (simp add: show_nat.simps [of n])
    with 1 [OF False] show ?thesis by (simp add: read_nat_snoc)
  qed
qed

text \<open>A text in which a decimal number is followed by something that is not a digit.\<close>

definition ends_number :: "string \<Rightarrow> bool" where
  "ends_number s \<longleftrightarrow> (case s of [] \<Rightarrow> True | c # _ \<Rightarrow> \<not> is_digit c)"

lemma takeWhile_show_nat:
  "ends_number rest \<Longrightarrow> takeWhile is_digit (show_nat n @ rest) = show_nat n"
proof -
  assume "ends_number rest"
  then have "takeWhile is_digit rest = []"
    by (cases rest) (auto simp: ends_number_def)
  moreover have "\<forall>c \<in> set (show_nat n). is_digit c" using show_nat_digits by fastforce
  ultimately show ?thesis by (simp add: takeWhile_append2)
qed

lemma show_nat_Cons: obtains d ds where "show_nat n = digit_char d # ds" "d < 10"
  using show_nat_digits [of _ n] show_nat_nonempty [of n] by (cases "show_nat n") fastforce+

lemma scan_dec_show_nat:
  "ends_number rest \<Longrightarrow> scan_dec (show_nat n @ rest) = Some (False, n, rest)"
proof -
  assume r: "ends_number rest"
  obtain d ds where d: "show_nat n = digit_char d # ds" "d < 10" by (rule show_nat_Cons)
  then have "read_sign (skip_space (show_nat n @ rest)) = (False, show_nat n @ rest)"
    by (simp add: skip_space_def read_sign_def)
  with takeWhile_show_nat [OF r, of n] show ?thesis by (simp add: scan_dec_def Let_def)
qed

lemma scan_dec_show_int:
  "ends_number rest \<Longrightarrow> scan_dec (show_int i @ rest) = Some (i < 0, nat \<bar>i\<bar>, rest)"
proof (cases "i < 0")
  case True
  assume r: "ends_number rest"
  have "read_sign (skip_space (CHR ''-'' # show_nat (nat (- i)) @ rest)) = (True, show_nat (nat (- i)) @ rest)"
    by (simp add: skip_space_def read_sign_def is_space_def)
  with True takeWhile_show_nat [OF r, of "nat (- i)"] show ?thesis
    by (simp add: scan_dec_def show_int_def)
next
  case False
  then show "ends_number rest \<Longrightarrow> ?thesis" by (simp add: show_int_def scan_dec_show_nat)
qed

lemma skip_space_space [simp]: "is_space c \<Longrightarrow> skip_space (c # s) = skip_space s"
  by (simp add: skip_space_def)

lemma scan_dec_space [simp]: "is_space c \<Longrightarrow> scan_dec (c # s) = scan_dec s"
  by (simp add: scan_dec_def)

lemma scan_s_space [simp]: "is_space c \<Longrightarrow> scan_s w (c # s) = scan_s w s"
  by (simp add: scan_s_def)

lemma scan_d_show_int:
  "ends_number rest \<Longrightarrow> scan_d (show_int (sint a) @ rest) = Inr (Some (a, rest))" for a :: i32
proof -
  assume r: "ends_number rest"
  have "in_i32 (sint a)" by simp
  then show ?thesis
    using scan_dec_show_int [OF r, of "sint a"] by (auto simp: scan_d_def Let_def)
qed

lemma strtoull_show_nat [simp]: "strtoull (show_nat (unat t)) = t" for t :: u64
proof -
  have "unat t < 2 ^ 64" using unsigned_less [of t, where ?'a = nat] by simp
  with scan_dec_show_nat [of "[]" "unat t"] show ?thesis
    by (simp add: strtoull_def ends_number_def)
qed

text \<open>A word without white space is read as one token.\<close>

definition is_word :: "string \<Rightarrow> bool" where
  "is_word w \<longleftrightarrow> w \<noteq> [] \<and> (\<forall>c \<in> set w. \<not> is_space c)"

text \<open>A text that starts with white space, or nothing.\<close>

definition ends_word :: "string \<Rightarrow> bool" where
  "ends_word s \<longleftrightarrow> (case s of [] \<Rightarrow> True | c # _ \<Rightarrow> is_space c)"

lemma scan_s_word:
  assumes "is_word w" and "length w \<le> n" and "ends_word rest"
  shows "scan_s n (w @ rest) = Some (w, rest)"
proof -
  have "skip_space (w @ rest) = w @ rest"
    using assms(1) by (cases w) (auto simp: is_word_def skip_space_def)
  moreover have "takeWhile (\<lambda>c. \<not> is_space c) (w @ rest) = w"
    using assms(1,3) by (cases rest) (auto simp: is_word_def ends_word_def takeWhile_append)
  moreover have "w \<noteq> []" "0 < n" using assms(1,2) by (cases w; simp add: is_word_def)+
  ultimately show ?thesis using assms(2) by (simp add: scan_s_def)
qed

lemma scan_s_end [simp]: "scan_s n [] = None"
  by (simp add: scan_s_def skip_space_def)

lemma show_nat_word: "is_word (show_nat n)"
  using show_nat_digits [of _ n] by (fastforce simp: is_word_def)

end
