(* ===== verification/Client_Cli.thy ===== *)
theory Client_Cli
  imports Client_Application C_Text
begin

text \<open>
  The interactive loop of the client, \<^verbatim>\<open>Application::run\<close> of
  \<^verbatim>\<open>src/sources/client/application.cpp\<close>, with the printing functions and the token
  tests above it. Standard input is a text that is read line by line, standard output a text that grows.
  Every iteration has its own environment: the value of the stop flag, the outcomes of the send and the
  receive its command may make, and the order in which the hash map of pending tickets is iterated.
\<close>

section \<open>Tokens\<close>

fun insensitiveEquals :: "string \<Rightarrow> string \<Rightarrow> bool" where
  "insensitiveEquals (a # as) (b # bs) =
     (if tolower a \<noteq> tolower b then False else insensitiveEquals as bs)"
| "insensitiveEquals [] [] = True"
| "insensitiveEquals (a # as) [] = False"
| "insensitiveEquals [] (b # bs) = False"

definition isNonblockToken :: "string \<Rightarrow> bool" where
  "isNonblockToken s \<longleftrightarrow>
     insensitiveEquals s ''non-block'' \<or> insensitiveEquals s ''nonblock'' \<or>
     insensitiveEquals s ''non_block'' \<or> insensitiveEquals s ''async''"

definition isBlockToken :: "string \<Rightarrow> bool" where
  "isBlockToken s \<longleftrightarrow>
     insensitiveEquals s ''block'' \<or> insensitiveEquals s ''blocking'' \<or> insensitiveEquals s ''sync''"

section \<open>Printing\<close>

definition result_text :: "Result_value \<Rightarrow> string" where
  "result_text v =
     (case v of
        int_result i \<Rightarrow> ''Result: Int='' @ show_int (sint i) @ nl
      | position i \<Rightarrow> ''Result: Pos='' @ show_int (sint i) @ nl
      | str_result s \<Rightarrow> ''Result: Str='' @ c_str s @ nl)"

definition ticket_text :: "u64 \<Rightarrow> string" where
  "ticket_text t = show_nat (unat t)"

definition printSubmit :: "check_site \<Rightarrow> SubmitResponse \<Rightarrow> string" where
  "printSubmit site response =
     out_stdout (PRINT_ERROR_NO_RET (Ipc_status (sresp_status response)) site) @
     (case sresp_ticket response of
        None \<Rightarrow> []
      | Some t \<Rightarrow> ''ticket='' @ ticket_text (req_id t) @ nl) @
     (case sresp_result response of
        None \<Rightarrow> []
      | Some (Some v) \<Rightarrow> result_text v
      | Some None \<Rightarrow> ''No result set'' @ nl)"

definition printGet :: "check_site \<Rightarrow> GetResponse \<Rightarrow> string" where
  "printGet site response =
     out_stdout (PRINT_ERROR_NO_RET (Ipc_status (gresp_status response)) site) @
     (case gresp_result response of
        None \<Rightarrow>
          if gresp_status response = ST_NOT_FINISHED then ''Result: NOT FINISHED'' @ nl
          else ''No result payload'' @ nl
      | Some (Some v) \<Rightarrow> result_text v
      | Some None \<Rightarrow> [])"

definition printHelp :: string where
  "printHelp =
     ''Commands:'' @ nl @
     ''  block/non-block add a b        '' @ nl @
     ''  block/non-block sub a b        '' @ nl @
     ''  block/non-block mult a b       '' @ nl @
     ''  block/non-block div a b        '' @ nl @
     ''  block/non-block concat s1 s2   '' @ nl @
     ''  block/non-block find hay needle'' @ nl @
     ''  get <ticket> [nowait | wait <ms>]  (retrieve result for non-blocking ticket)'' @ nl @
     ''  list                               (list pending tickets)'' @ nl @
     ''  quit | exit'' @ nl"

section \<open>Commands\<close>

type_synonym pending_map = "u64 \<rightharpoonup> Ticket"

text \<open>How a command ends: the next iteration, out of the loop, or out of the function with a code.\<close>

datatype cmd_end = Next | Quit | Leave int

type_synonym cmd_result = "cmd_end \<times> string \<times> frame list \<times> pending_map"

record cmd_env =
  cmd_call :: client_env
  cmd_order :: "u64 list"

definition say :: "string \<Rightarrow> pending_map \<Rightarrow> cmd_result cpp" where
  "say text pending = Inr (Next, text, [], pending)"

text \<open>
  \<^verbatim>\<open>sscanf(buf, "%*31s %63s %31s %u", ticketStr, waitTok, &ms)\<close>: the number of
  conversions stored (0 also stands for the end of the input) and the three variables.
\<close>

definition get_args :: "string \<Rightarrow> (nat \<times> string \<times> string \<times> u32) cpp" where
  "get_args buf =
     (case scan_s 31 buf of
        None \<Rightarrow> Inr (0, [], [], 0)
      | Some (_, r1) \<Rightarrow>
          (case scan_s 63 r1 of
             None \<Rightarrow> Inr (0, [], [], 0)
           | Some (ticketStr, r2) \<Rightarrow>
               (case scan_s 31 r2 of
                  None \<Rightarrow> Inr (1, ticketStr, [], 0)
                | Some (waitTok, r3) \<Rightarrow>
                    cpp_bind (scan_u r3) (\<lambda>u.
                      case u of
                        None \<Rightarrow> Inr (2, ticketStr, waitTok, 0)
                      | Some (ms, _) \<Rightarrow> Inr (3, ticketStr, waitTok, ms)))))"

text \<open>The wait mode and timeout of the words after the ticket, \<^const>\<open>None\<close> for an unknown word.\<close>

definition wait_args :: "nat \<Rightarrow> string \<Rightarrow> u32 \<Rightarrow> (GetWaitMode \<times> u32) option" where
  "wait_args n waitTok ms =
     (if n \<ge> 2 then
        if insensitiveEquals waitTok ''nowait'' then Some (NO_WAIT, 0)
        else if insensitiveEquals waitTok ''wait'' then Some (WAIT_UP_TO, if n \<ge> 3 then ms else 0)
        else None
      else Some (NO_WAIT, 0))"

definition cmd_get :: "codec \<Rightarrow> cmd_env \<Rightarrow> string \<Rightarrow> pending_map \<Rightarrow> cmd_result cpp" where
  "cmd_get cd env buf pending =
     cpp_bind (get_args buf) (\<lambda>(n, ticketStr, waitTok, ms).
       if n < 1 then say (''Usage: get <ticket> [nowait | wait <ms>]'' @ nl) pending
       else
         let ticketId = strtoull ticketStr in
         (case pending ticketId of
            None \<Rightarrow> say (''Unknown or already consumed ticket: '' @ ticket_text ticketId @ nl) pending
          | Some ticket \<Rightarrow>
              (case wait_args n waitTok ms of
                 None \<Rightarrow> say (''Invalid wait mode. Use: nowait | wait <ms>'' @ nl) pending
               | Some (mode, timeoutMs) \<Rightarrow>
                   cpp_bind (getResult cd (cmd_call env) ticket mode timeoutMs GetResponse_default)
                     (\<lambda>(rc, gres, fs).
                       if rc \<noteq> EC_SUCCESS then
                         Inr (Next, ''Error getting result (transport)'' @ nl, fs, pending)
                       else
                         Inr (Next, printGet (cl_site (cmd_call env)) gres, fs,
                              if gresp_status gres \<noteq> ST_NOT_FINISHED then pending(ticketId := None)
                              else pending)))))"

text \<open>The iteration order of the hash map is an argument: an enumeration of its keys.\<close>

definition cmd_list :: "cmd_env \<Rightarrow> pending_map \<Rightarrow> cmd_result cpp" where
  "cmd_list env pending =
     (if pending = Map.empty then say (''No pending tickets.'' @ nl) pending
      else say (''Pending tickets:'' @ nl @
             concat (map (\<lambda>t. ''  '' @ ticket_text t @ nl) (cmd_order env))) pending)"

text \<open>The submission of a request, by the mode that was asked for.\<close>

definition submit_by_mode ::
  "codec \<Rightarrow> cmd_env \<Rightarrow> bool \<Rightarrow> SubmitRequest \<Rightarrow> (int \<times> SubmitResponse \<times> frame list) cpp" where
  "submit_by_mode cd env isBlocking req =
     (if isBlocking then submitBlocking cd (cmd_call env) req SubmitResponse_default
      else submitNonBlocking cd (cmd_call env) req SubmitResponse_default)"

text \<open>After a submission that went through: print the answer, and keep a ticket.\<close>

definition finish_submit ::
  "cmd_env \<Rightarrow> bool \<Rightarrow> SubmitResponse \<Rightarrow> frame list \<Rightarrow> pending_map \<Rightarrow> cmd_result" where
  "finish_submit env isNonBlocking sresp fs pending =
     (Next, printSubmit (cl_site (cmd_call env)) sresp, fs,
      case sresp_ticket sresp of
        Some t \<Rightarrow> if isNonBlocking then pending(req_id t \<mapsto> t) else pending
      | None \<Rightarrow> pending)"

text \<open>\<^verbatim>\<open>sscanf(buf, "%*31s %*31s %d %d", &a, &b) == 2\<close>.\<close>

definition math_args :: "string \<Rightarrow> (i32 \<times> i32) option cpp" where
  "math_args buf =
     (case scan_s 31 buf of
        None \<Rightarrow> Inr None
      | Some (_, r1) \<Rightarrow>
          (case scan_s 31 r1 of
             None \<Rightarrow> Inr None
           | Some (_, r2) \<Rightarrow>
               cpp_bind (scan_d r2) (\<lambda>x.
                 case x of
                   None \<Rightarrow> Inr None
                 | Some (a, r3) \<Rightarrow>
                     cpp_bind (scan_d r3) (\<lambda>y.
                       case y of None \<Rightarrow> Inr None | Some (b, _) \<Rightarrow> Inr (Some (a, b))))))"

definition math_op_of :: "string \<Rightarrow> MathOp" where
  "math_op_of p =
     (if insensitiveEquals p ''add'' then MATH_ADD
      else if insensitiveEquals p ''sub'' then MATH_SUB
      else if insensitiveEquals p ''mult'' then MATH_MUL else MATH_DIV)"

text \<open>A failed submission of a mathematical request leaves the whole loop.\<close>

definition cmd_math ::
  "codec \<Rightarrow> cmd_env \<Rightarrow> bool \<Rightarrow> bool \<Rightarrow> string \<Rightarrow> string \<Rightarrow> string \<Rightarrow> pending_map \<Rightarrow> cmd_result cpp" where
  "cmd_math cd env isBlocking isNonBlocking mode p buf pending =
     cpp_bind (math_args buf) (\<lambda>args.
       case args of
         None \<Rightarrow> say (''Usage: '' @ mode @ '' '' @ p @ '' a b'' @ nl) pending
       | Some (a, b) \<Rightarrow>
           cpp_bind (submit_by_mode cd env isBlocking (makeMath (math_op_of p) a b)) (\<lambda>(result, sresp, fs).
             case RETURN_IF_ERROR (Int_status result) (cl_site (cmd_call env)) of
               Inl rc \<Rightarrow> Inr (Leave rc, [], fs, pending)
             | Inr _ \<Rightarrow>
                 if result = EC_SUCCESS then Inr (finish_submit env isNonBlocking sresp fs pending)
                 else Inr (Next, ''error sending request'' @ nl, fs, pending)))"

text \<open>\<^verbatim>\<open>sscanf(buf, "%*31s %*31s %63s %63s", s1, s2) == 2\<close>.\<close>

definition str_args :: "string \<Rightarrow> (string \<times> string) option" where
  "str_args buf =
     (case scan_s 31 buf of
        None \<Rightarrow> None
      | Some (_, r1) \<Rightarrow>
          (case scan_s 31 r1 of
             None \<Rightarrow> None
           | Some (_, r2) \<Rightarrow>
               (case scan_s 63 r2 of
                  None \<Rightarrow> None
                | Some (s1, r3) \<Rightarrow>
                    (case scan_s 63 r3 of None \<Rightarrow> None | Some (s2, _) \<Rightarrow> Some (s1, s2)))))"

text \<open>The branches for \<^verbatim>\<open>concat\<close> and \<^verbatim>\<open>find\<close>, which differ in texts only.\<close>

definition cmd_str ::
  "codec \<Rightarrow> cmd_env \<Rightarrow> bool \<Rightarrow> bool \<Rightarrow> StrOp \<Rightarrow> string \<Rightarrow> string \<Rightarrow> string \<Rightarrow> pending_map \<Rightarrow> cmd_result cpp" where
  "cmd_str cd env isBlocking isNonBlocking p usage failed buf pending =
     (case str_args buf of
        None \<Rightarrow> say usage pending
      | Some (s1, s2) \<Rightarrow>
          cpp_bind (submit_by_mode cd env isBlocking (makeStr p s1 s2)) (\<lambda>(result, sresp, fs).
            if result = EC_SUCCESS then Inr (finish_submit env isNonBlocking sresp fs pending)
            else Inr (Next, failed, fs, pending)))"

definition cmd_op ::
  "codec \<Rightarrow> cmd_env \<Rightarrow> string \<Rightarrow> string \<Rightarrow> string \<Rightarrow> pending_map \<Rightarrow> cmd_result cpp" where
  "cmd_op cd env mode p buf pending =
     (let isNonBlocking = isNonblockToken mode; isBlocking = isBlockToken mode in
      if \<not> isNonBlocking \<and> \<not> isBlocking then
        say (''First token must be '' @ [CHR 0x27] @ ''block'' @ [CHR 0x27] @ '' or '' @ [CHR 0x27] @
             ''non-block or get'' @ [CHR 0x27] @ nl) pending
      else if insensitiveEquals p ''add'' \<or> insensitiveEquals p ''sub'' \<or>
              insensitiveEquals p ''mult'' \<or> insensitiveEquals p ''div'' then
        cmd_math cd env isBlocking isNonBlocking mode p buf pending
      else if insensitiveEquals p ''concat'' then
        cmd_str cd env isBlocking isNonBlocking STR_CONCAT
          (''Usage: '' @ mode @ '' concat s1 s2'' @ nl) (''error sending request'' @ nl) buf pending
      else if insensitiveEquals p ''find'' then
        cmd_str cd env isBlocking isNonBlocking STR_FIND_START
          (''Usage: '' @ mode @ '' find hay needle'' @ nl) (''Error sending request'' @ nl) buf pending
      else say (''Unknown op. Type '' @ [CHR 0x27] @ ''help'' @ [CHR 0x27] @ nl) pending)"

definition bad_command :: string where
  "bad_command = ''Bad Command. Type '' @ [CHR 0x27] @ ''help'' @ [CHR 0x27] @ nl"

text \<open>One command line, without its newline. An empty line is skipped.\<close>

definition client_command :: "codec \<Rightarrow> cmd_env \<Rightarrow> string \<Rightarrow> pending_map \<Rightarrow> cmd_result cpp" where
  "client_command cd env line pending =
     (if line = [] then say [] pending
      else if insensitiveEquals line ''quit'' \<or> insensitiveEquals line ''exit'' then
        Inr (Quit, [], [], pending)
      else if insensitiveEquals line ''help'' then say printHelp pending
      else
        let buf = take 511 line in
        (case scan_s 31 buf of
           None \<Rightarrow> say bad_command pending
         | Some (tok1, _) \<Rightarrow>
             if insensitiveEquals tok1 ''get'' then cmd_get cd env buf pending
             else if insensitiveEquals tok1 ''list'' then cmd_list env pending
             else
               (case scan_s 31 buf of
                  None \<Rightarrow> say bad_command pending
                | Some (mode, r1) \<Rightarrow>
                    (case scan_s 31 r1 of
                       None \<Rightarrow> say bad_command pending
                     | Some (p, _) \<Rightarrow> cmd_op cd env mode p buf pending))))"

section \<open>The loop\<close>

text \<open>The line \<^verbatim>\<open>fgets\<close> stored, as a C string without its newline.\<close>

definition strip_line :: "string \<Rightarrow> string" where
  "strip_line stored =
     (let line = c_str stored in
      if line \<noteq> [] \<and> last line = CHR 0x0A then butlast line else line)"

type_synonym loop_script = "nat \<Rightarrow> bool \<times> cmd_env" \<comment> \<open>the stop flag and the calls of each iteration\<close>

function client_loop ::
  "codec \<Rightarrow> loop_script \<Rightarrow> nat \<Rightarrow> string \<Rightarrow> pending_map \<Rightarrow> string \<Rightarrow> frame list
    \<Rightarrow> (int \<times> string \<times> frame list \<times> pending_map) cpp" where
  "client_loop cd script i inp pending out sent =
     (if fst (script i) then Inr (EC_SUCCESS, out @ ''Exiting...'' @ nl, sent, pending)
      else
        (case fgets 512 inp of
           None \<Rightarrow> Inr (EC_SUCCESS, out @ ''>> '' @ ''Exiting...'' @ nl, sent, pending)
         | Some (stored, rest) \<Rightarrow>
             (case client_command cd (snd (script i)) (strip_line stored) pending of
                Inl h \<Rightarrow> Inl h
              | Inr (e, text, fs, pending') \<Rightarrow>
                  (case e of
                     Next \<Rightarrow> client_loop cd script (Suc i) rest pending' (out @ ''>> '' @ text) (sent @ fs)
                   | Quit \<Rightarrow> Inr (EC_SUCCESS, out @ ''>> '' @ text @ ''Exiting...'' @ nl, sent @ fs, pending')
                   | Leave rc \<Rightarrow> Inr (rc, out @ ''>> '' @ text, sent @ fs, pending')))))"
  by pat_completeness auto

termination
  by (relation "measure (\<lambda>(cd, script, i, inp, pending, out, sent). length inp)")
    (auto intro: fgets_shrinks)

declare client_loop.simps [simp del]

definition client_run ::
  "codec \<Rightarrow> loop_script \<Rightarrow> string \<Rightarrow> (int \<times> string \<times> frame list \<times> pending_map) cpp" where
  "client_run cd script inp =
     client_loop cd script 0 inp Map.empty
       (''Client started. Type '' @ [CHR 0x27] @ ''help'' @ [CHR 0x27] @ '' for commands.'' @ nl) []"

end
