(* ===== verification/Client_Protocol.thy ===== *)
theory Client_Protocol
  imports Client_Cli
begin

text \<open>
  What the client promises its user: which words it understands, which request a command line becomes,
  what it keeps of the tickets it was given, and how its loop ends.
\<close>

section \<open>Words\<close>

lemma insensitiveEquals_iff: "insensitiveEquals a b \<longleftrightarrow> map tolower a = map tolower b"
  by (induction a b rule: insensitiveEquals.induct) auto

lemma tolower_of_char:
  "(of_char (tolower c) :: nat) = (if 65 \<le> (of_char c :: nat) \<and> of_char c \<le> (90 :: nat) then of_char c + 32 else of_char c)"
  by (simp add: tolower_def)

lemma tolower_space [simp]: "is_space (tolower c) = is_space c"
  by (auto simp: is_space_def tolower_of_char)

lemma insensitive_word:
  assumes "insensitiveEquals w v"
  shows "length w = length v" "is_word w = is_word v"
proof -
  from assms have m: "map tolower w = map tolower v" by (simp add: insensitiveEquals_iff)
  from m show "length w = length v" by (metis length_map)
  have "list_all is_space (map tolower x) = list_all is_space x" for x by (simp add: list.pred_map comp_def)
  have "list_all (\<lambda>c. \<not> is_space c) (map tolower x) = list_all (\<lambda>c. \<not> is_space c) x" for x
    by (simp add: list.pred_map comp_def)
  with m have "list_all (\<lambda>c. \<not> is_space c) w = list_all (\<lambda>c. \<not> is_space c) v" by metis
  moreover have "w = [] \<longleftrightarrow> v = []" using m by auto
  ultimately show "is_word w = is_word v" by (simp add: is_word_def list_all_iff)
qed

lemma insensitive_trans:
  "insensitiveEquals w v \<Longrightarrow> insensitiveEquals w u = insensitiveEquals v u"
  by (simp add: insensitiveEquals_iff)

text \<open>A text with white space in it is none of the one-word commands.\<close>

lemma insensitive_not_word: "\<not> is_word w \<Longrightarrow> is_word v \<Longrightarrow> \<not> insensitiveEquals w v"
  using insensitive_word by blast

lemma literal_words [simp]:
  "is_word ''quit''" "is_word ''exit''" "is_word ''help''" "is_word ''get''" "is_word ''list''"
  "is_word ''add''" "is_word ''sub''" "is_word ''mult''" "is_word ''div''" "is_word ''concat''"
  "is_word ''find''" "is_word ''block''" "is_word ''blocking''" "is_word ''sync''" "is_word ''non-block''"
  "is_word ''nonblock''" "is_word ''non_block''" "is_word ''async''" "is_word ''wait''" "is_word ''nowait''"
  by (simp_all add: is_word_def is_space_def)

definition mode_token :: "string \<Rightarrow> bool" where
  "mode_token m \<longleftrightarrow> isBlockToken m \<or> isNonblockToken m"

definition block_words :: "string list" where
  "block_words = [''block'', ''blocking'', ''sync'']"

definition nonblock_words :: "string list" where
  "nonblock_words = [''non-block'', ''nonblock'', ''non_block'', ''async'']"

lemma isBlockToken_iff: "isBlockToken m \<longleftrightarrow> (\<exists>v \<in> set block_words. insensitiveEquals m v)"
  by (simp add: isBlockToken_def block_words_def)

lemma isNonblockToken_iff: "isNonblockToken m \<longleftrightarrow> (\<exists>v \<in> set nonblock_words. insensitiveEquals m v)"
  by (simp add: isNonblockToken_def nonblock_words_def)

text \<open>The fixed words are pairwise different up to case.\<close>

lemma word_table:
  "list_all (\<lambda>v. is_word v \<and> length v \<le> 9 \<and> \<not> insensitiveEquals v ''get'' \<and> \<not> insensitiveEquals v ''list'')
     (block_words @ nonblock_words)"
  "list_all (\<lambda>v. list_all (\<lambda>u. \<not> insensitiveEquals v u) nonblock_words) block_words"
  by (simp_all add: block_words_def nonblock_words_def tolower_def)

lemma modes_disjoint: "isBlockToken m \<Longrightarrow> \<not> isNonblockToken m"
proof
  assume "isBlockToken m" "isNonblockToken m"
  then obtain v u where vu: "v \<in> set block_words" "u \<in> set nonblock_words" "insensitiveEquals m v" "insensitiveEquals m u"
    by (auto simp: isBlockToken_iff isNonblockToken_iff)
  then have "insensitiveEquals v u" using insensitive_trans [OF vu(3)] by simp
  with word_table(2) vu(1,2) show False by (auto simp: list_all_iff)
qed

lemma mode_token_word:
  assumes "mode_token m"
  shows "is_word m" "length m \<le> 9" "\<not> insensitiveEquals m ''get''" "\<not> insensitiveEquals m ''list''"
proof -
  from assms obtain v where v: "insensitiveEquals m v" "v \<in> set (block_words @ nonblock_words)"
    by (auto simp: mode_token_def isBlockToken_iff isNonblockToken_iff)
  with word_table(1) have "is_word v \<and> length v \<le> 9 \<and> \<not> insensitiveEquals v ''get'' \<and> \<not> insensitiveEquals v ''list''"
    by (simp add: list_all_iff)
  with v(1) insensitive_word [OF v(1)] insensitive_trans [OF v(1)]
  show "is_word m" "length m \<le> 9" "\<not> insensitiveEquals m ''get''" "\<not> insensitiveEquals m ''list''" by simp_all
qed

section \<open>Lines\<close>

lemma space_is_space [simp]: "is_space CHR '' ''"
  by (simp add: is_space_def)

lemma ends_word_space [simp]: "ends_word (CHR '' '' # s)" "ends_word []"
  by (simp_all add: ends_word_def)

lemma ends_number_space [simp]: "ends_number (CHR '' '' # s)" "ends_number []"
  by (simp_all add: ends_number_def is_digit_def)

lemma not_word_space: "\<not> is_word (v @ CHR '' '' # u)"
  by (auto simp: is_word_def)

text \<open>A line of several words whose first one is short is dispatched on that word.\<close>

lemma command_of_words:
  assumes "is_word v" and "length v \<le> 31" and "length (v @ CHR '' '' # u) \<le> 511"
  shows "client_command cd env (v @ CHR '' '' # u) pending =
    (if insensitiveEquals v ''get'' then cmd_get cd env (v @ CHR '' '' # u) pending
     else if insensitiveEquals v ''list'' then cmd_list env pending
     else case scan_s 31 u of
         None \<Rightarrow> say bad_command pending
       | Some (p, _) \<Rightarrow> cmd_op cd env v p (v @ CHR '' '' # u) pending)"
proof -
  have "\<not> insensitiveEquals (v @ CHR '' '' # u) w" if "is_word w" for w
    using insensitive_not_word not_word_space that by blast
  moreover have "scan_s 31 (v @ CHR '' '' # u) = Some (v, CHR '' '' # u)"
    using assms by (intro scan_s_word) simp_all
  ultimately show ?thesis
    using assms(3) by (auto simp: client_command_def Let_def)
qed

lemma length_show_nat: "n < 10 ^ k \<Longrightarrow> 0 < k \<Longrightarrow> length (show_nat n) \<le> k"
proof (induction n arbitrary: k rule: show_nat.induct)
  case (1 n)
  show ?case
  proof (cases "n < 10")
    case True
    with 1(3) show ?thesis by (simp add: show_nat.simps [of n])
  next
    case False
    obtain j where k: "k = Suc j" using 1(3) by (cases k) auto
    with False 1(2) have "0 < j" by (cases j) auto
    note j = k this
    with 1(2) have "n div 10 < 10 ^ j" by (simp add: less_mult_imp_div_less mult.commute)
    with 1(1) [OF False] j False show ?thesis by (simp add: show_nat.simps [of n])
  qed
qed

lemma length_show_i32: "length (show_int (sint (a :: i32))) \<le> 11"
proof -
  have "nat \<bar>sint a\<bar> \<le> 2 ^ 31" using in_i32_sint [of a] by (auto simp: in_i32_def)
  then have "nat \<bar>sint a\<bar> < 10 ^ 10" by simp
  then have "length (show_nat (nat \<bar>sint a\<bar>)) \<le> 10" by (rule length_show_nat) simp
  then show ?thesis by (auto simp: show_int_def)
qed

lemma length_show_u64: "length (show_nat (unat (t :: u64))) \<le> 20"
proof -
  have "unat t < 2 ^ 64" using unsigned_less [of t, where ?'a = nat] by simp
  also have "(2 :: nat) ^ 64 < 10 ^ 20" by simp
  finally show ?thesis by (rule length_show_nat) simp
qed

section \<open>Commands for an operation\<close>

fun math_word :: "MathOp \<Rightarrow> string" where
  "math_word MATH_ADD = ''add''"
| "math_word MATH_SUB = ''sub''"
| "math_word MATH_MUL = ''mult''"
| "math_word MATH_DIV = ''div''"
| "math_word (MathOp_other n) = []"

fun str_word :: "StrOp \<Rightarrow> string" where
  "str_word STR_CONCAT = ''concat''"
| "str_word STR_FIND_START = ''find''"
| "str_word (StrOp_other n) = []"

lemma math_word_simps:
  assumes "\<forall>n. M \<noteq> MathOp_other n"
  shows "is_word (math_word M)" "length (math_word M) \<le> 4" "math_op_of (math_word M) = M"
    "insensitiveEquals (math_word M) ''add'' \<or> insensitiveEquals (math_word M) ''sub'' \<or>
     insensitiveEquals (math_word M) ''mult'' \<or> insensitiveEquals (math_word M) ''div''"
  using assms by (cases M; simp add: math_op_of_def tolower_def)+

lemma str_word_simps:
  assumes "\<forall>n. P \<noteq> StrOp_other n"
  shows "is_word (str_word P)" "length (str_word P) \<le> 6"
    "\<not> (insensitiveEquals (str_word P) ''add'' \<or> insensitiveEquals (str_word P) ''sub'' \<or>
     insensitiveEquals (str_word P) ''mult'' \<or> insensitiveEquals (str_word P) ''div'')"
    "insensitiveEquals (str_word P) ''concat'' = (P = STR_CONCAT)"
    "insensitiveEquals (str_word P) ''find'' = (P = STR_FIND_START)"
  using assms by (cases P; simp add: tolower_def)+

text \<open>The request a command asks for, with the mode of its first word.\<close>

definition typed_request :: "string \<Rightarrow> Payload \<Rightarrow> EnvelopeReq" where
  "typed_request m p =
     Some (env_submit \<lparr>sreq_mode = (if isBlockToken m then BLOCKING else NONBLOCKING), sreq_payload = Some p\<rparr>)"

definition math_line :: "string \<Rightarrow> string \<Rightarrow> i32 \<Rightarrow> i32 \<Rightarrow> string" where
  "math_line m p a b = m @ '' '' @ p @ '' '' @ show_int (sint a) @ '' '' @ show_int (sint b)"

definition str_line :: "string \<Rightarrow> string \<Rightarrow> string \<Rightarrow> string \<Rightarrow> string" where
  "str_line m p s1 s2 = m @ '' '' @ p @ '' '' @ s1 @ '' '' @ s2"

text \<open>A submission that is sent and answered.\<close>

definition answered :: "codec \<Rightarrow> cmd_env \<Rightarrow> EnvelopeReq \<Rightarrow> string \<Rightarrow> EnvelopeResp \<Rightarrow> bool" where
  "answered cd env req buf resp \<longleftrightarrow>
     ser_req cd req = Some buf \<and> (\<exists>n. cl_send (cmd_call env) = Sent n) \<and>
     (\<exists>frames. cl_recv (cmd_call env) = Recv_frames frames \<and> frames \<noteq> [] \<and>
        parse_resp cd (last frames) = Some resp)"

lemma submit_answered:
  assumes "answered cd env (typed_request m p) buf (Some (resp_submit s))"
    and "sreq_payload req = Some p"
  shows "submit_by_mode cd env (isBlockToken m) req = Inr (EC_SUCCESS, s, [(buf, False)])"
proof -
  from assms(2) have "req\<lparr>sreq_mode := md\<rparr> = \<lparr>sreq_mode = md, sreq_payload = Some p\<rparr>" for md by simp
  with assms(1) show ?thesis
    by (auto simp: answered_def typed_request_def submit_by_mode_def submitBlocking_def
        submitNonBlocking_def sendEnvelope_def send_buffer_ok recv_submit_ok)
qed

lemma math_args_line:
  assumes "is_word m" "length m \<le> 31" "is_word p" "length p \<le> 31"
  shows "math_args (math_line m p a b) = Inr (Some (a, b))"
proof -
  have "scan_s 31 (math_line m p a b) = Some (m, CHR '' '' # p @ CHR '' '' # show_int (sint a) @ CHR '' '' # show_int (sint b))"
    unfolding math_line_def using assms by (simp add: scan_s_word)
  moreover have "scan_s 31 (p @ CHR '' '' # show_int (sint a) @ CHR '' '' # show_int (sint b)) =
      Some (p, CHR '' '' # show_int (sint a) @ CHR '' '' # show_int (sint b))"
    using assms by (simp add: scan_s_word)
  moreover have "scan_d (CHR '' '' # s) = scan_d s" for s by (simp add: scan_d_def)
  ultimately show ?thesis
    using scan_d_show_int [of "CHR '' '' # show_int (sint b)" a] scan_d_show_int [of "[]" b]
    by (simp add: math_args_def)
qed

lemma str_args_line:
  assumes "is_word m" "length m \<le> 31" "is_word p" "length p \<le> 31"
    "is_word s1" "length s1 \<le> 63" "is_word s2" "length s2 \<le> 63"
  shows "str_args (str_line m p s1 s2) = Some (s1, s2)"
proof -
  have "scan_s 31 (str_line m p s1 s2) = Some (m, CHR '' '' # p @ CHR '' '' # s1 @ CHR '' '' # s2)"
    unfolding str_line_def using assms by (simp add: scan_s_word)
  moreover have "scan_s 31 (p @ CHR '' '' # s1 @ CHR '' '' # s2) = Some (p, CHR '' '' # s1 @ CHR '' '' # s2)"
    using assms by (simp add: scan_s_word)
  moreover have "scan_s 63 (s1 @ CHR '' '' # s2) = Some (s1, CHR '' '' # s2)"
    using assms by (simp add: scan_s_word)
  moreover have "scan_s 63 s2 = Some (s2, [])"
    using assms(7,8) scan_s_word [of s2 63 "[]"] by simp
  ultimately show ?thesis by (simp add: str_args_def)
qed

lemma cmd_op_math:
  assumes "insensitiveEquals p (math_word M)" and "\<forall>n. M \<noteq> MathOp_other n" and "mode_token m"
  shows "cmd_op cd env m p buf pending = cmd_math cd env (isBlockToken m) (isNonblockToken m) m p buf pending"
    "math_op_of p = M"
proof -
  note t = insensitive_trans [OF assms(1)] and w = math_word_simps [OF assms(2)]
  have "math_op_of p = math_op_of (math_word M)" by (simp only: math_op_of_def t)
  with w(3) show "math_op_of p = M" by simp
  from assms(3) have md: "isNonblockToken m \<or> isBlockToken m" by (auto simp: mode_token_def)
  from w(4) have "insensitiveEquals p ''add'' \<or> insensitiveEquals p ''sub'' \<or>
      insensitiveEquals p ''mult'' \<or> insensitiveEquals p ''div''" by (simp only: t)
  with md show "cmd_op cd env m p buf pending = cmd_math cd env (isBlockToken m) (isNonblockToken m) m p buf pending"
    unfolding cmd_op_def Let_def by argo
qed

lemma cmd_op_str:
  assumes "insensitiveEquals p (str_word P)" and "\<forall>n. P \<noteq> StrOp_other n" and "mode_token m"
  shows "\<exists>usage failed. cmd_op cd env m p buf pending =
    cmd_str cd env (isBlockToken m) (isNonblockToken m) P usage failed buf pending"
proof -
  note t = insensitive_trans [OF assms(1)] and w = str_word_simps [OF assms(2)]
  from assms(3) have md: "isNonblockToken m \<or> isBlockToken m" by (auto simp: mode_token_def)
  have no: "\<not> (insensitiveEquals p ''add'' \<or> insensitiveEquals p ''sub'' \<or>
      insensitiveEquals p ''mult'' \<or> insensitiveEquals p ''div'')" unfolding t by (rule w(3))
  show ?thesis
  proof (cases "P = STR_CONCAT")
    case True
    with w(4) have "insensitiveEquals p ''concat''" by (simp only: t)
    with md no True show ?thesis unfolding cmd_op_def Let_def by auto
  next
    case False
    with assms(2) have P: "P = STR_FIND_START" by (cases P) auto
    have "\<not> insensitiveEquals p ''concat''" using False w(4) unfolding t by simp
    moreover have "insensitiveEquals p ''find''" using P w(5) unfolding t by simp
    ultimately show ?thesis using md no P unfolding cmd_op_def Let_def by auto
  qed
qed

section \<open>Commands for a ticket\<close>

text \<open>The line that asks for a ticket, at once or with a time limit, and the request it stands for.\<close>

definition get_line :: "u64 \<Rightarrow> u32 option \<Rightarrow> string" where
  "get_line t w = ''get '' @ ticket_text t @
     (case w of None \<Rightarrow> [] | Some ms \<Rightarrow> '' wait '' @ show_nat (unat ms))"

definition typed_get :: "Ticket \<Rightarrow> u32 option \<Rightarrow> EnvelopeReq" where
  "typed_get ticket w =
     Some (env_get \<lparr>greq_ticket = Some ticket,
       greq_wait_mode = (case w of None \<Rightarrow> NO_WAIT | Some _ \<Rightarrow> WAIT_UP_TO),
       greq_timeout_ms = (case w of None \<Rightarrow> 0 | Some ms \<Rightarrow> ms)\<rparr>)"

lemma scan_u_show_nat: "scan_u (CHR '' '' # show_nat (unat (ms :: u32))) = Inr (Some (ms, []))"
proof -
  have "unat ms < 2 ^ 32" using unsigned_less [of ms, where ?'a = nat] by simp
  with scan_dec_show_nat [of "[]" "unat ms"] show ?thesis by (simp add: scan_u_def)
qed

lemma get_args_line:
  "get_args (get_line t w) =
     Inr (case w of None \<Rightarrow> (1, ticket_text t, [], 0) | Some ms \<Rightarrow> (3, ticket_text t, ''wait'', ms))"
proof -
  have t: "is_word (ticket_text t)" "length (ticket_text t) \<le> 63"
    using length_show_u64 [of t] by (simp_all add: ticket_text_def show_nat_word)
  have tok: "scan_s 31 (''get'' @ rest) = Some (''get'', rest)" "scan_s 31 (''wait'' @ rest) = Some (''wait'', rest)"
      "scan_s 63 (ticket_text t @ rest) = Some (ticket_text t, rest)" if "ends_word rest" for rest
    using that t by (simp_all only: scan_s_word literal_words list.size)
  show ?thesis
  proof (cases w)
    case None
    then show ?thesis
      using tok(1) [of "CHR '' '' # ticket_text t"] tok(3) [of "[]"]
      by (simp add: get_args_def get_line_def)
  next
    case (Some ms)
    then show ?thesis
      using tok(1) [of "CHR '' '' # ticket_text t @ CHR '' '' # ''wait'' @ CHR '' '' # show_nat (unat ms)"]
        tok(2) [of "CHR '' '' # show_nat (unat ms)"] scan_u_show_nat [of ms]
        tok(3) [of "CHR '' '' # ''wait'' @ CHR '' '' # show_nat (unat ms)"]
      by (simp add: get_args_def get_line_def)
  qed
qed

lemma get_line_command: "client_command cd env (get_line t w) pending = cmd_get cd env (get_line t w) pending"
proof -
  obtain u where u: "get_line t w = ''get'' @ CHR '' '' # u" "length u \<le> 200"
  proof (cases w)
    case None
    then show ?thesis
      using that [of "ticket_text t"] length_show_u64 [of t] by (simp add: get_line_def ticket_text_def)
  next
    case (Some ms)
    have "unat ms < 10 ^ 10" using unsigned_less [of ms, where ?'a = nat] by simp
    then have "length (show_nat (unat ms)) \<le> 10" by (rule length_show_nat) simp
    with Some show ?thesis
      using that [of "ticket_text t @ '' wait '' @ show_nat (unat ms)"] length_show_u64 [of t]
      by (simp add: get_line_def ticket_text_def)
  qed
  show ?thesis
    unfolding u(1) using u(2) by (subst command_of_words) (simp_all add: literal_words(4) del: append_Cons append_Nil)
qed

lemma getResult_answered:
  assumes "answered cd env (Some (env_get (get_request ticket mode ms))) buf (Some (resp_get g))"
  shows "getResult cd (cmd_call env) ticket mode ms out = Inr (EC_SUCCESS, g, [(buf, False)])"
  using assms by (auto simp: answered_def getResult_def sendEnvelope_def send_buffer_ok recvEnvelope_ok)

lemma ticket_command_unknown:
  assumes "pending t = None"
  shows "client_command cd env (get_line t w) pending =
    Inr (Next, ''Unknown or already consumed ticket: '' @ ticket_text t @ nl, [], pending)"
  using assms
  by (auto simp: get_line_command cmd_get_def get_args_line ticket_text_def say_def split: option.splits)

lemma ticket_command_answered:
  assumes p: "pending t = Some ticket" and a: "answered cd env (typed_get ticket w) buf (Some (resp_get g))"
  shows "client_command cd env (get_line t w) pending =
    Inr (Next, printGet (cl_site (cmd_call env)) g, [(buf, False)],
      if gresp_status g \<noteq> ST_NOT_FINISHED then pending(t := None) else pending)"
proof -
  obtain mode ms where w: "wait_args (if w = None then 1 else 3) (if w = None then [] else ''wait'')
      (case w of None \<Rightarrow> 0 | Some ms \<Rightarrow> ms) = Some (mode, ms)"
      "typed_get ticket w = Some (env_get (get_request ticket mode ms))"
    by (cases w) (simp_all add: wait_args_def typed_get_def get_request_def tolower_def)
  with a have "getResult cd (cmd_call env) ticket mode ms GetResponse_default = Inr (EC_SUCCESS, g, [(buf, False)])"
    by (intro getResult_answered) simp
  with p w(1) show ?thesis
    by (cases w) (simp_all add: get_line_command cmd_get_def get_args_line ticket_text_def)
qed

lemma math_command_answered:
  assumes "mode_token m" and "insensitiveEquals p (math_word M)" and "\<forall>n. M \<noteq> MathOp_other n"
    and "answered cd env (typed_request m (math \<lparr>math_op = M, math_a = a, math_b = b\<rparr>)) buf
      (Some (resp_submit s))"
  shows "client_command cd env (math_line m p a b) pending =
    Inr (Next, printSubmit (cl_site (cmd_call env)) s, [(buf, False)],
      case sresp_ticket s of
        Some t \<Rightarrow> if isNonblockToken m then pending(req_id t \<mapsto> t) else pending
      | None \<Rightarrow> pending)"
proof -
  note m = mode_token_word [OF assms(1)] and w = math_word_simps [OF assms(3)]
  have p: "is_word p" "length p \<le> 4" using insensitive_word [OF assms(2)] w by simp_all
  have line: "math_line m p a b = m @ CHR '' '' # p @ CHR '' '' # show_int (sint a) @ CHR '' '' # show_int (sint b)"
    by (simp add: math_line_def)
  have "client_command cd env (math_line m p a b) pending = cmd_op cd env m p (math_line m p a b) pending"
  proof -
    have "length (math_line m p a b) \<le> 511"
      using m(2) p(2) length_show_i32 [of a] length_show_i32 [of b] by (simp add: math_line_def)
    with m p show ?thesis unfolding line by (subst command_of_words) (simp_all add: scan_s_word)
  qed
  also have "\<dots> = cmd_math cd env (isBlockToken m) (isNonblockToken m) m p (math_line m p a b) pending"
    by (rule cmd_op_math [OF assms(2,3,1)])
  also have "\<dots> = Inr (finish_submit env (isNonblockToken m) s [(buf, False)] pending)"
    using submit_answered [OF assms(4), of "makeMath M a b"] cmd_op_math(2) [OF assms(2,3,1)]
      math_args_line [of m p a b] m(1,2) p
    by (simp add: cmd_math_def makeMath_def)
  finally show ?thesis by (simp add: finish_submit_def)
qed

lemma string_command_answered:
  assumes "mode_token m" and "insensitiveEquals p (str_word P)" and "\<forall>n. P \<noteq> StrOp_other n"
    and "is_word s1" and "length s1 \<le> 63" and "is_word s2" and "length s2 \<le> 63"
    and "answered cd env (typed_request m (str \<lparr>str_op = P, str_s1 = s1, str_s2 = s2\<rparr>)) buf
      (Some (resp_submit s))"
  shows "client_command cd env (str_line m p s1 s2) pending =
    Inr (Next, printSubmit (cl_site (cmd_call env)) s, [(buf, False)],
      case sresp_ticket s of
        Some t \<Rightarrow> if isNonblockToken m then pending(req_id t \<mapsto> t) else pending
      | None \<Rightarrow> pending)"
proof -
  note m = mode_token_word [OF assms(1)] and w = str_word_simps [OF assms(3)]
  have p: "is_word p" "length p \<le> 6" using insensitive_word [OF assms(2)] w by simp_all
  have line: "str_line m p s1 s2 = m @ CHR '' '' # p @ CHR '' '' # s1 @ CHR '' '' # s2"
    by (simp add: str_line_def)
  obtain usage failed where cmd: "cmd_op cd env m p (str_line m p s1 s2) pending =
      cmd_str cd env (isBlockToken m) (isNonblockToken m) P usage failed (str_line m p s1 s2) pending"
    using cmd_op_str [OF assms(2,3,1)] by blast
  have "client_command cd env (str_line m p s1 s2) pending = cmd_op cd env m p (str_line m p s1 s2) pending"
  proof -
    have "length (str_line m p s1 s2) \<le> 511"
      using m(2) p(2) assms(5,7) by (simp add: str_line_def)
    with m p show ?thesis unfolding line by (subst command_of_words) (simp_all add: scan_s_word)
  qed
  also have "\<dots> = Inr (finish_submit env (isNonblockToken m) s [(buf, False)] pending)"
    using submit_answered [OF assms(8), of "makeStr P s1 s2"] str_args_line [of m p s1 s2] m(1,2) p assms(4-7)
    unfolding cmd by (simp add: cmd_str_def makeStr_def)
  finally show ?thesis by (simp add: finish_submit_def)
qed

section \<open>A concrete exchange\<close>

text \<open>A codec that knows one request and one response, and calls that succeed with that response.\<close>

definition pair_codec :: "EnvelopeReq \<Rightarrow> EnvelopeResp \<Rightarrow> codec" where
  "pair_codec req resp =
     \<lparr>ser_handshake = (\<lambda>h. None), parse_handshake = (\<lambda>b. None),
      ser_req = (\<lambda>e. if e = req then Some ''q'' else None), parse_req = (\<lambda>b. if b = ''q'' then Some req else None),
      ser_resp = (\<lambda>e. if e = resp then Some ''r'' else None), parse_resp = (\<lambda>b. if b = ''r'' then Some resp else None)\<rparr>"

definition pair_env :: cmd_env where
  "pair_env =
     \<lparr>cmd_call = \<lparr>cl_site = \<lparr>site_file = ''application.cpp'', site_line = 487, site_func = ''run'', site_msg = None\<rparr>,
        cl_send = Sent 1, cl_recv = Recv_frames [''r'']\<rparr>, cmd_order = []\<rparr>"

lemma pair_answered [simp]: "answered (pair_codec req resp) pair_env req ''q'' resp"
  by (simp add: answered_def pair_codec_def pair_env_def)

definition int_answer :: "i32 \<Rightarrow> SubmitResponse" where
  "int_answer i = \<lparr>sresp_status = ST_SUCCESS, sresp_ticket = None, sresp_result = Some (Some (int_result i))\<rparr>"

lemma int_answer_simps [simp]: "sresp_ticket (int_answer i) = None"
  "printSubmit site (int_answer i) = ''Result: Int='' @ show_int (sint i) @ nl"
  by (simp_all add: int_answer_def printSubmit_def result_text_def PRINT_ERROR_NO_RET_def
      handleIpcError_def no_output_def)

section \<open>Properties of the commands\<close>

text \<open>
  C11: a mathematical command becomes exactly the request it spells. For every spelling of a mode and of
  an operation and all 32-bit operands, typing the operands in decimal sends one frame, the serialised
  request with that mode, operation and those operands; the answer is printed, and its ticket, if it
  has one and the mode is non-blocking, becomes pending.
\<close>

theorem math_command_exact:
  assumes "mode_token m" and "insensitiveEquals p (math_word M)" and "\<forall>n. M \<noteq> MathOp_other n"
    and "answered cd env (typed_request m (math \<lparr>math_op = M, math_a = a, math_b = b\<rparr>)) buf
      (Some (resp_submit s))"
  shows "client_command cd env (math_line m p a b) pending =
    Inr (Next, printSubmit (cl_site (cmd_call env)) s, [(buf, False)],
      case sresp_ticket s of
        Some t \<Rightarrow> if isNonblockToken m then pending(req_id t \<mapsto> t) else pending
      | None \<Rightarrow> pending)"
  using assms by (rule math_command_answered)

theorem math_command_exact_witness:
  "client_command
     (pair_codec (typed_request ''Block'' (math \<lparr>math_op = MATH_MUL, math_a = 6, math_b = - 7\<rparr>))
       (Some (resp_submit (int_answer (- 42))))) pair_env ''Block MULT 6 -7'' Map.empty =
   Inr (Next, ''Result: Int=-42'' @ nl, [(''q'', False)], Map.empty)"
proof -
  have "mode_token ''Block''" "insensitiveEquals ''MULT'' (math_word MATH_MUL)"
    by (simp_all add: mode_token_def isBlockToken_def tolower_def char_of_def bit_0)
  moreover have "show_int (sint (- 7 :: i32)) = ''-7''" "show_int (sint (6 :: i32)) = ''6''"
      "show_int (sint (- 42 :: i32)) = ''-42''"
    by (simp_all add: show_int_def show_nat.simps digit_char_def char_of_def bit_0)
  ultimately show ?thesis
    using math_command_exact [of "''Block''" "''MULT''" MATH_MUL _ pair_env 6 "- 7" "''q''" "int_answer (- 42)" Map.empty]
    by (simp add: math_line_def)
qed

text \<open>
  C24: a string command becomes exactly the request it spells, for operands that are single words of at
  most 63 characters.
\<close>

theorem string_command_exact:
  assumes "mode_token m" and "insensitiveEquals p (str_word P)" and "\<forall>n. P \<noteq> StrOp_other n"
    and "is_word s1" and "length s1 \<le> 63" and "is_word s2" and "length s2 \<le> 63"
    and "answered cd env (typed_request m (str \<lparr>str_op = P, str_s1 = s1, str_s2 = s2\<rparr>)) buf
      (Some (resp_submit s))"
  shows "client_command cd env (str_line m p s1 s2) pending =
    Inr (Next, printSubmit (cl_site (cmd_call env)) s, [(buf, False)],
      case sresp_ticket s of
        Some t \<Rightarrow> if isNonblockToken m then pending(req_id t \<mapsto> t) else pending
      | None \<Rightarrow> pending)"
  using assms by (rule string_command_answered)

theorem string_command_exact_witness:
  "client_command
     (pair_codec (typed_request ''sync'' (str \<lparr>str_op = STR_FIND_START, str_s1 = ''haystack'', str_s2 = ''st''\<rparr>))
       (Some (resp_submit (int_answer 3)))) pair_env ''sync Find haystack st'' Map.empty =
   Inr (Next, ''Result: Int=3'' @ nl, [(''q'', False)], Map.empty)"
proof -
  have "mode_token ''sync''" "insensitiveEquals ''Find'' (str_word STR_FIND_START)"
      "is_word ''haystack''" "is_word ''st''"
    by (simp_all add: mode_token_def isBlockToken_def tolower_def char_of_def bit_0 is_word_def is_space_def)
  moreover have "show_int (sint (3 :: i32)) = ''3''"
    by (simp add: show_int_def show_nat.simps digit_char_def char_of_def bit_0)
  ultimately show ?thesis
    using string_command_exact [of "''sync''" "''Find''" STR_FIND_START "''haystack''" "''st''" _ pair_env "''q''" "int_answer 3" Map.empty]
    by (simp add: str_line_def)
qed

text \<open>
  C12: a ticket the client printed can be typed back. Whatever the 64-bit number, the line
  \<open>get <ticket>\<close>, with or without \<open>wait <ms>\<close>, is refused without a message to the server when the
  ticket is not pending, and otherwise sends exactly the collection of that ticket with that time
  limit, prints the answer, and forgets the ticket exactly when the answer is final.
\<close>

theorem ticket_command_exact:
  "(pending t = None \<longrightarrow>
      client_command cd env (get_line t w) pending =
        Inr (Next, ''Unknown or already consumed ticket: '' @ ticket_text t @ nl, [], pending)) \<and>
   (\<forall>ticket buf g. pending t = Some ticket \<longrightarrow> answered cd env (typed_get ticket w) buf (Some (resp_get g)) \<longrightarrow>
      client_command cd env (get_line t w) pending =
        Inr (Next, printGet (cl_site (cmd_call env)) g, [(buf, False)],
          if gresp_status g \<noteq> ST_NOT_FINISHED then pending(t := None) else pending))"
  using ticket_command_unknown ticket_command_answered by blast

theorem ticket_command_exact_witness:
  "client_command
     (pair_codec (typed_get \<lparr>req_id = 327680\<rparr> (Some 500))
       (Some (resp_get \<lparr>gresp_status = ST_NOT_FINISHED, gresp_result = None\<rparr>)))
     pair_env ''get 327680 wait 500'' [327680 \<mapsto> \<lparr>req_id = 327680\<rparr>] =
   Inr (Next, ''IPC Info: [NOT_FINISHED]'' @ nl @ ''Result: NOT FINISHED'' @ nl, [(''q'', False)],
     [327680 \<mapsto> \<lparr>req_id = 327680\<rparr>])"
proof -
  have "get_line 327680 (Some 500) = ''get 327680 wait 500''"
    by (simp add: get_line_def ticket_text_def show_nat.simps digit_char_def char_of_def bit_0)
  moreover have "printGet (cl_site (cmd_call pair_env)) \<lparr>gresp_status = ST_NOT_FINISHED, gresp_result = None\<rparr> =
      ''IPC Info: [NOT_FINISHED]'' @ nl @ ''Result: NOT FINISHED'' @ nl"
    by (simp add: printGet_def PRINT_ERROR_NO_RET_def handleIpcError_def)
  ultimately show ?thesis
    using ticket_command_exact [THEN conjunct2, rule_format, OF _ pair_answered,
        of "[327680 \<mapsto> \<lparr>req_id = 327680\<rparr>]" 327680 "\<lparr>req_id = 327680\<rparr>" "Some 500"
        "\<lparr>gresp_status = ST_NOT_FINISHED, gresp_result = None\<rparr>"]
    by (simp only: fun_upd_same GetResponse.simps refl not_True_eq_False if_False)
qed

section \<open>What any command can do\<close>

text \<open>The ticket of a submission's answer that a command received.\<close>

definition issued_to :: "codec \<Rightarrow> cmd_env \<Rightarrow> Ticket \<Rightarrow> bool" where
  "issued_to cd env t \<longleftrightarrow>
     (\<exists>frames s. cl_recv (cmd_call env) = Recv_frames frames \<and> frames \<noteq> [] \<and>
        parse_resp cd (last frames) = Some (Some (resp_submit s)) \<and> sresp_ticket s = Some t)"

definition pending_step :: "codec \<Rightarrow> cmd_env \<Rightarrow> pending_map \<Rightarrow> pending_map \<Rightarrow> bool" where
  "pending_step cd env p p' \<longleftrightarrow>
     p' = p \<or> (\<exists>t. p' = p(t := None)) \<or> (\<exists>t. issued_to cd env t \<and> p' = p(req_id t \<mapsto> t))"

text \<open>
  A command fails to return only by a number out of range or an exception; it sends at most one frame,
  changes at most one pending ticket, and leaves the function with no code but that of failure.
\<close>

fun halt_ok :: "halt \<Rightarrow> bool" where
  "halt_ok Scan_Range = True"
| "halt_ok (Uncaught e) = True"
| "halt_ok h = False"

fun result_ok :: "codec \<Rightarrow> cmd_env \<Rightarrow> pending_map \<Rightarrow> cmd_result cpp \<Rightarrow> bool" where
  "result_ok cd env p (Inl h) = halt_ok h"
| "result_ok cd env p (Inr (e, text, fs, p')) \<longleftrightarrow>
     e \<in> {Next, Quit, Leave EC_FAILURE} \<and> length fs \<le> 1 \<and> pending_step cd env p p'"

lemma result_ok_bind:
  "(\<And>h. m = Inl h \<Longrightarrow> halt_ok h) \<Longrightarrow> (\<And>x. m = Inr x \<Longrightarrow> result_ok cd env p (f x)) \<Longrightarrow>
    result_ok cd env p (cpp_bind m f)"
  by (cases m) (auto simp: cpp_bind_def)

lemma pending_step_refl [simp]: "pending_step cd env p p"
  by (simp add: pending_step_def)

lemma pending_step_erase [simp]: "pending_step cd env p (p(t := None))"
  unfolding pending_step_def by blast

lemma result_ok_say [simp]: "result_ok cd env p (say text p)"
  by (simp add: say_def)

lemma scan_halt: "scan_d s = Inl h \<Longrightarrow> halt_ok h" "scan_u s = Inl h \<Longrightarrow> halt_ok h"
  by (auto simp: scan_d_def scan_u_def Let_def split: option.splits prod.splits if_splits)

lemma get_args_halt: "get_args buf = Inl h \<Longrightarrow> halt_ok h"
  by (auto simp: get_args_def cpp_bind_eq_Inl dest: scan_halt split: option.splits prod.splits)

lemma math_args_halt: "math_args buf = Inl h \<Longrightarrow> halt_ok h"
  by (auto simp: math_args_def cpp_bind_eq_Inl dest: scan_halt split: option.splits prod.splits)

lemma recv_submit_halt: "recv_submit cd env out fs = Inl h \<Longrightarrow> halt_ok h"
proof (cases "recvEnvelope cd env")
  case (Inr x)
  obtain rc resp where "x = (rc, resp)" by (cases x)
  with Inr show "recv_submit cd env out fs = Inl h \<Longrightarrow> halt_ok h"
    by (auto simp: recv_submit_def split: option.splits EnvResp.splits if_splits)
qed (auto simp: recv_submit_def dest!: recvEnvelope_halt)

lemma sendEnvelope_halt: "sendEnvelope cd env e = Inl h \<Longrightarrow> halt_ok h"
  by (auto simp: sendEnvelope_def dest!: send_buffer_halt)

lemma sendEnvelope_frames: "sendEnvelope cd env e = Inr (rc, fs) \<Longrightarrow> length fs \<le> 1"
  unfolding sendEnvelope_def by (drule send_buffer_frames) auto

lemma submit_halt: "submit_by_mode cd env blk req = Inl h \<Longrightarrow> halt_ok h"
  by (auto simp: submit_by_mode_def submitBlocking_def submitNonBlocking_def cpp_bind_eq_Inl
      dest: sendEnvelope_halt recv_submit_halt split: if_splits)

lemma submit_returns:
  assumes "submit_by_mode cd env blk req = Inr (rc, s, fs)"
  shows "length fs \<le> 1 \<and> (rc = EC_SUCCESS \<or> rc = EC_FAILURE) \<and>
    (rc = EC_SUCCESS \<longrightarrow> (\<forall>t. sresp_ticket s = Some t \<longrightarrow> issued_to cd env t))"
proof -
  from assms obtain rc0 fs0 where snd: "\<exists>e. sendEnvelope cd (cmd_call env) e = Inr (rc0, fs0)"
      "recv_submit cd (cmd_call env) SubmitResponse_default fs0 = Inr (rc, s, fs) \<or> (rc = EC_FAILURE \<and> fs = fs0)"
    by (auto simp: submit_by_mode_def submitBlocking_def submitNonBlocking_def cpp_bind_eq_Inr split: if_splits)
  then have len: "length fs0 \<le> 1" using sendEnvelope_frames by blast
  from snd(2) show ?thesis
  proof
    assume "recv_submit cd (cmd_call env) SubmitResponse_default fs0 = Inr (rc, s, fs)"
    then show ?thesis
      by (cases rule: recv_submit_cases) (use len in \<open>auto simp: issued_to_def\<close>)
  qed (use len in auto)
qed

lemma finish_submit_ok:
  assumes "length fs \<le> 1" and "\<forall>t. sresp_ticket s = Some t \<longrightarrow> issued_to cd env t"
  shows "result_ok cd env p (Inr (finish_submit env nb s fs p))"
  using assms by (auto simp: finish_submit_def pending_step_def split: option.split)

lemma cmd_math_ok: "result_ok cd env p (cmd_math cd env blk nb mode q buf p)"
  unfolding cmd_math_def
proof (rule result_ok_bind)
  fix args
  show "result_ok cd env p
      (case args of None \<Rightarrow> say (''Usage: '' @ mode @ '' '' @ q @ '' a b'' @ nl) p
       | Some (a, b) \<Rightarrow>
           cpp_bind (submit_by_mode cd env blk (makeMath (math_op_of q) a b)) (\<lambda>(result, sresp, fs).
             case RETURN_IF_ERROR (Int_status result) (cl_site (cmd_call env)) of
               Inl rc \<Rightarrow> Inr (Leave rc, [], fs, p)
             | Inr _ \<Rightarrow>
                 if result = EC_SUCCESS then Inr (finish_submit env nb sresp fs p)
                 else Inr (Next, ''error sending request'' @ nl, fs, p)))"
    by (auto split: option.split prod.split intro!: result_ok_bind finish_submit_ok
        dest!: submit_halt submit_returns)
qed (rule math_args_halt)

lemma cmd_str_ok: "result_ok cd env p (cmd_str cd env blk nb q usage failed buf p)"
  by (auto simp: cmd_str_def split: option.split prod.split intro!: result_ok_bind finish_submit_ok
      dest!: submit_halt submit_returns)

lemma getResult_effect:
  "case getResult cd env t m ms out of Inl h \<Rightarrow> halt_ok h | Inr (rc, g, fs) \<Rightarrow> length fs \<le> 1"
proof (cases "sendEnvelope cd env (Some (env_get (get_request t m ms)))")
  case (Inl h)
  then show ?thesis by (simp add: getResult_def sendEnvelope_halt)
next
  case (Inr x)
  then obtain rc0 fs0 where send: "sendEnvelope cd env (Some (env_get (get_request t m ms))) = Inr (rc0, fs0)"
      "length fs0 \<le> 1" using sendEnvelope_frames by (cases x) auto
  show ?thesis
  proof (cases "recvEnvelope cd env")
    case (Inl h)
    with send show ?thesis using recvEnvelope_halt [OF Inl] by (auto simp: getResult_def)
  next
    case (Inr y)
    obtain rc1 resp where "y = (rc1, resp)" by (cases y)
    with Inr send show ?thesis
      by (cases resp; cases "the resp") (auto simp: getResult_def)
  qed
qed

lemma getResult_halt: "getResult cd env t m ms out = Inl h \<Longrightarrow> halt_ok h"
  using getResult_effect [of cd env t m ms out] by simp

lemma getResult_frames: "getResult cd env t m ms out = Inr (rc, g, fs) \<Longrightarrow> length fs \<le> 1"
  using getResult_effect [of cd env t m ms out] by simp

lemma cmd_get_ok: "result_ok cd env p (cmd_get cd env buf p)"
  unfolding cmd_get_def Let_def
  by (auto split: option.split prod.split intro!: result_ok_bind
      dest!: get_args_halt getResult_halt getResult_frames)

lemma cmd_op_ok: "result_ok cd env p (cmd_op cd env mode q buf p)"
  by (simp add: cmd_op_def Let_def cmd_math_ok cmd_str_ok)

lemma client_command_ok: "result_ok cd env p (client_command cd env line p)"
  by (auto simp: client_command_def Let_def cmd_get_ok cmd_op_ok cmd_list_def split: option.split prod.split)

section \<open>Properties of the loop\<close>

text \<open>
  Every pending ticket is under its own number, and was issued to this client in the answer to one of
  its submissions.
\<close>

definition pending_inv :: "codec \<Rightarrow> loop_script \<Rightarrow> pending_map \<Rightarrow> bool" where
  "pending_inv cd script p \<longleftrightarrow>
     (\<forall>k t. p k = Some t \<longrightarrow> req_id t = k \<and> (\<exists>i. issued_to cd (snd (script i)) t))"

lemma pending_inv_step:
  "pending_inv cd script p \<Longrightarrow> pending_step cd (snd (script i)) p p' \<Longrightarrow> pending_inv cd script p'"
  by (auto simp: pending_inv_def pending_step_def split: if_splits)

lemma client_loop_ok:
  "pending_inv cd script p \<Longrightarrow>
    (case client_loop cd script i inp p out sent of
       Inl h \<Rightarrow> halt_ok h
     | Inr (rc, text, fs, p') \<Rightarrow> rc \<in> {EC_SUCCESS, EC_FAILURE} \<and> pending_inv cd script p' \<and>
         length fs \<le> length sent + length inp)"
proof (induction cd script i inp p out sent rule: client_loop.induct)
  case (1 cd script i inp p out sent)
  show ?case
  proof (cases "fst (script i) \<or> fgets 512 inp = None")
    case True
    with 1(2) show ?thesis by (subst client_loop.simps) auto
  next
    case False
    then obtain stored rest where f: "fgets 512 inp = Some (stored, rest)" "\<not> fst (script i)" by auto
    have shrink: "length rest < length inp" using fgets_shrinks [OF f(1)] by simp
    let ?r = "client_command cd (snd (script i)) (strip_line stored) p"
    have ok: "result_ok cd (snd (script i)) p ?r" by (rule client_command_ok)
    show ?thesis
    proof (cases ?r)
      case (Inl h)
      with ok f show ?thesis by (subst client_loop.simps) simp
    next
      case (Inr x)
      obtain e msg fs p' where x: "x = (e, msg, fs, p')" by (cases x)
      with Inr ok have r: "e \<in> {Next, Quit, Leave EC_FAILURE}" "length fs \<le> 1"
          "pending_step cd (snd (script i)) p p'" by simp_all
      with 1(2) have inv: "pending_inv cd script p'" using pending_inv_step by blast
      show ?thesis
      proof (cases e)
        case Next
        with 1(1) [OF _ f(1) refl Inr x [symmetric] refl refl _ inv] f Inr x r shrink show ?thesis
          by (subst client_loop.simps) (fastforce split: sum.splits)
      qed (use f Inr x r inv shrink in \<open>auto simp: client_loop.simps [of cd script i inp p out sent]\<close>)
    qed
  qed
qed

text \<open>
  C13: the interactive loop ends for every input and every behaviour of the network. It returns success
  or failure, unless a command types a number no \<^verbatim>\<open>int\<close> holds or a call of ZeroMQ throws;
  it sends no more frames than it read characters; and the tickets that are still pending at the end are
  filed under their own numbers and were all issued to this client.
\<close>

theorem client_run_ends:
  "(\<exists>rc text sent pending. client_run cd script inp = Inr (rc, text, sent, pending) \<and>
      rc \<in> {EC_SUCCESS, EC_FAILURE} \<and> length sent \<le> length inp \<and> pending_inv cd script pending) \<or>
   client_run cd script inp = Inl Scan_Range \<or> (\<exists>e. client_run cd script inp = Inl (Uncaught e))"
proof -
  have "pending_inv cd script Map.empty" by (simp add: pending_inv_def)
  from client_loop_ok [OF this, where i = 0 and inp = inp and sent = "[]"]
  have "case client_run cd script inp of
       Inl h \<Rightarrow> halt_ok h
     | Inr (rc, text, fs, p') \<Rightarrow> rc \<in> {EC_SUCCESS, EC_FAILURE} \<and> pending_inv cd script p' \<and> length fs \<le> length inp"
    unfolding client_run_def by (simp only: list.size add_0)
  then show ?thesis
    by (cases "client_run cd script inp") (auto elim: halt_ok.elims)
qed

section \<open>A send that fails\<close>

text \<open>
  C35: a non-blocking submission does not notice that it was never sent. When the socket takes nothing
  and a reply is there to be read, the non-blocking call succeeds with that reply, while the blocking
  one fails.
\<close>

theorem unsent_submission_succeeds:
  assumes "cl_send env = Send_none" and "cl_recv env = Recv_frames [r]"
    and "parse_resp cd r = Some (Some (resp_submit s))"
  shows "submitNonBlocking cd env req out = Inr (EC_SUCCESS, s, []) \<and>
    submitBlocking cd env req out = Inr (EC_FAILURE, out\<lparr>sresp_status := ST_ERROR_INTERNAL\<rparr>, [])"
proof -
  have "sendEnvelope cd env e = Inr (EC_FAILURE, [])" for e
    using assms(1) by (auto simp: sendEnvelope_def send_buffer_def split: option.split)
  with assms(2,3) show ?thesis
    by (simp add: submitNonBlocking_def submitBlocking_def recv_submit_def recvEnvelope_def)
qed

theorem unsent_submission_succeeds_witness:
  "submitNonBlocking (pair_codec None (Some (resp_submit (int_answer 5)))) ((cmd_call pair_env)\<lparr>cl_send := Send_none\<rparr>)
     (makeMath MATH_MUL 2 3) SubmitResponse_default = Inr (EC_SUCCESS, int_answer 5, [])"
  by (rule unsent_submission_succeeds [where r = "''r''", THEN conjunct1])
    (simp_all add: pair_codec_def pair_env_def)

section \<open>Identities\<close>

lemma identity_chars_simps: "length identity_chars = 62" "distinct identity_chars"
  by (simp_all add: identity_chars_def)

text \<open>
  The identity of a client is eight letters and digits, as a routing identity must not be empty or
  start with a zero byte, and two clients share one exactly when all eight of their draws agree.
\<close>

lemma identity_well_formed:
  assumes "draws_ok ds" and "draws_ok ds'"
  shows "length (random_identity ds) = 8 \<and> set (random_identity ds) \<subseteq> set identity_chars \<and>
    hd (random_identity ds) \<noteq> CHR 0x00 \<and>
    (random_identity ds = random_identity ds' \<longleftrightarrow> ds = ds')"
proof -
  have sub: "set (random_identity ds) \<subseteq> set identity_chars"
    using assms(1) by (auto simp: random_identity_def draws_ok_def)
  have len: "length (random_identity ds) = 8"
    using assms(1) by (simp add: random_identity_def draws_ok_def)
  then have "hd (random_identity ds) \<in> set (random_identity ds)" by (intro hd_in_set) auto
  with sub have "hd (random_identity ds) \<in> set identity_chars" by blast
  moreover have "CHR 0x00 \<notin> set identity_chars" by (simp add: identity_chars_def)
  moreover have "random_identity ds = random_identity ds' \<longleftrightarrow> ds = ds'"
  proof -
    have "inj_on (\<lambda>d. identity_chars ! d) (set ds \<union> set ds')"
      using assms identity_chars_simps(2) by (auto simp: draws_ok_def inj_on_def nth_eq_iff_index_eq)
    then show ?thesis by (simp add: random_identity_def inj_on_map_eq_map)
  qed
  ultimately show ?thesis using sub len by auto
qed

end
