(* ===== verification/Session.thy ===== *)
theory Session
  imports Server_Protocol Client_Protocol
begin

text \<open>
  The client and the server together. What the client relies on is an interface, the locale
  \<open>envelope_service\<close>: submissions and collections are answered as a specification over a table of
  tickets says. The server's dispatcher provides it. The end-to-end properties follow a command line to
  the server and its reply back to the screen, and a sequence of requests whose replies may be late.
\<close>

section \<open>The specification\<close>

definition ticket_answer :: "u64 \<Rightarrow> SubmitResponse" where
  "ticket_answer t = \<lparr>sresp_status = ST_NOT_FINISHED, sresp_ticket = Some \<lparr>req_id = t\<rparr>, sresp_result = None\<rparr>"

text \<open>
  The answer a submission is due and the table of tickets after it, by the mask of the client and the
  number the next ticket gets: a request outside the mask is refused, a blocking one is computed (which
  may be undefined), and a non-blocking one gets the ticket.
\<close>

definition spec_submit :: "u8 \<Rightarrow> u64 \<Rightarrow> SubmitRequest \<Rightarrow> tickets \<Rightarrow> (SubmitResponse \<times> tickets) cpp" where
  "spec_submit caps t sreq T =
     (if \<not> (\<exists>p \<in> allowed caps. requested sreq = Some p)
      then Inr (SubmitResponse_default\<lparr>sresp_status := ST_ERROR_INVALID_INPUT\<rparr>, T)
      else if sreq_mode sreq = BLOCKING then
        cpp_bind (compute sreq) (\<lambda>(st, res).
          Inr (\<lparr>sresp_status = st, sresp_ticket = None, sresp_result = Some res\<rparr>, T))
      else Inr (ticket_answer t, T(t \<mapsto> Pending sreq)))"

text \<open>
  A command for an operation: the word for it, the line, and what can be typed in one line (a known
  operation, and for strings two words of at most 63 characters). A ticket is kept of a non-blocking
  submission.
\<close>

fun op_word :: "Payload \<Rightarrow> string" where
  "op_word (math x) = math_word (math_op x)"
| "op_word (str x) = str_word (str_op x)"

fun op_line :: "string \<Rightarrow> string \<Rightarrow> Payload \<Rightarrow> string" where
  "op_line m p (math x) = math_line m p (math_a x) (math_b x)"
| "op_line m p (str x) = str_line m p (str_s1 x) (str_s2 x)"

fun typeable :: "Payload \<Rightarrow> bool" where
  "typeable (math x) \<longleftrightarrow> (case math_op x of MathOp_other _ \<Rightarrow> False | _ \<Rightarrow> True)"
| "typeable (str x) \<longleftrightarrow> (case str_op x of StrOp_other _ \<Rightarrow> False | _ \<Rightarrow> True) \<and>
     is_word (str_s1 x) \<and> length (str_s1 x) \<le> 63 \<and> is_word (str_s2 x) \<and> length (str_s2 x) \<le> 63"

definition typed_submit :: "string \<Rightarrow> Payload \<Rightarrow> SubmitRequest" where
  "typed_submit m pl =
     \<lparr>sreq_mode = (if isBlockToken m then BLOCKING else NONBLOCKING), sreq_payload = Some pl\<rparr>"

definition keep_ticket :: "string \<Rightarrow> SubmitResponse \<Rightarrow> pending_map \<Rightarrow> pending_map" where
  "keep_ticket m a pending =
     (case sresp_ticket a of
        Some t \<Rightarrow> if isNonblockToken m then pending(req_id t \<mapsto> t) else pending
      | None \<Rightarrow> pending)"

lemma op_command_answered:
  assumes "mode_token m" and "insensitiveEquals p (op_word pl)" and "typeable pl"
    and "answered cd env (Some (env_submit (typed_submit m pl))) buf (Some (resp_submit a))"
  shows "client_command cd env (op_line m p pl) pending =
    Inr (Next, printSubmit (cl_site (cmd_call env)) a, [(buf, False)], keep_ticket m a pending)"
proof (cases pl)
  case (math x)
  then obtain M v w where pl: "pl = math \<lparr>math_op = M, math_a = v, math_b = w\<rparr>" by (cases x) simp
  with assms(3) have "\<forall>n. M \<noteq> MathOp_other n" by auto
  with math_command_answered [OF assms(1), of p M cd env v w buf a pending] assms(2,4) pl
  show ?thesis by (simp add: keep_ticket_def typed_submit_def typed_request_def)
next
  case (str x)
  then obtain P v w where pl: "pl = str \<lparr>str_op = P, str_s1 = v, str_s2 = w\<rparr>" by (cases x) simp
  with assms(3) have "\<forall>n. P \<noteq> StrOp_other n" by auto
  with string_command_answered [OF assms(1), of p P v w cd env buf a pending] assms(2-4) pl
  show ?thesis by (simp add: keep_ticket_def typed_submit_def typed_request_def)
qed

section \<open>The service the client relies on\<close>

text \<open>
  One client's view of a server: \<open>serve\<close> answers an envelope, \<open>mask\<close> is what the client may
  do, \<open>fresh\<close> the number of the next ticket and \<open>table\<close> the tickets with the state of their
  requests. A submission is answered as the specification says, and so is a collection without waiting.
\<close>

locale envelope_service =
  fixes serve :: "EnvelopeReq \<Rightarrow> 's \<Rightarrow> (EnvelopeResp \<times> 's) cpp"
    and up :: "'s \<Rightarrow> bool" and mask :: "'s \<Rightarrow> u8" and fresh :: "'s \<Rightarrow> u64" and table :: "'s \<Rightarrow> tickets"
  assumes submit_law: "up s \<Longrightarrow> sreq_mode sreq \<in> {BLOCKING, NONBLOCKING} \<Longrightarrow>
      spec_submit (mask s) (fresh s) sreq (table s) = Inr (a, T) \<Longrightarrow>
      \<exists>s'. serve (Some (env_submit sreq)) s = Inr (Some (resp_submit a), s') \<and>
        up s' \<and> mask s' = mask s \<and> table s' = T"
    and get_law: "up s \<Longrightarrow> greq_wait_mode g = NO_WAIT \<Longrightarrow> spec_get (greq_id g) (table s) = (a', T) \<Longrightarrow>
      \<exists>s'. serve (Some (env_get g)) s = Inr (Some (resp_get a'), s') \<and>
        up s' \<and> mask s' = mask s \<and> table s' = T"
begin

lemma op_command_served:
  assumes "up s" and "mode_token m" and "insensitiveEquals p (op_word pl)" and "typeable pl"
    and "spec_submit (mask s) (fresh s) (typed_submit m pl) (table s) = Inr (a, T)"
    and "answered cd env (Some (env_submit (typed_submit m pl))) buf (Some (resp_submit a))"
  shows "(\<exists>s'. serve (Some (env_submit (typed_submit m pl))) s = Inr (Some (resp_submit a), s') \<and> table s' = T) \<and>
    client_command cd env (op_line m p pl) pending =
      Inr (Next, printSubmit (cl_site (cmd_call env)) a, [(buf, False)], keep_ticket m a pending)"
  using submit_law [OF assms(1) _ assms(5)] op_command_answered [OF assms(2,3,4,6)]
  by (auto simp: typed_submit_def)

lemma get_command_served:
  assumes "up s" and "pending t = Some ticket" and "spec_get (req_id ticket) (table s) = (a, T)"
    and "answered cd env (typed_get ticket None) buf (Some (resp_get a))"
  shows "(\<exists>s'. serve (typed_get ticket None) s = Inr (Some (resp_get a), s') \<and> table s' = T) \<and>
    client_command cd env (get_line t None) pending =
      Inr (Next, printGet (cl_site (cmd_call env)) a, [(buf, False)],
        if gresp_status a \<noteq> ST_NOT_FINISHED then pending(t := None) else pending)"
proof
  define g where "g = \<lparr>greq_ticket = Some ticket, greq_wait_mode = NO_WAIT, greq_timeout_ms = 0\<rparr>"
  have "greq_id g = req_id ticket" "greq_wait_mode g = NO_WAIT" "typed_get ticket None = Some (env_get g)"
    by (simp_all add: g_def greq_id_def typed_get_def)
  then show "\<exists>s'. serve (typed_get ticket None) s = Inr (Some (resp_get a), s') \<and> table s' = T"
    using get_law [OF assms(1), of g] assms(3) by auto
qed (rule ticket_command_answered [of pending t, OF assms(2,4)])

end

section \<open>The server provides it\<close>

text \<open>The dispatcher for one client: the environment of the calls, the client's mask, and the runner.\<close>

definition dispatch ::
  "EnvelopeReq \<Rightarrow> call_env \<times> u8 \<times> AlgoRunner \<Rightarrow> (EnvelopeResp \<times> call_env \<times> u8 \<times> AlgoRunner) cpp" where
  "dispatch e s =
     (case s of (env, caps, h) \<Rightarrow>
        cpp_bind (handleEnvelope env e caps None h) (\<lambda>(rc, resp, out, h'). Inr (resp, env, caps, h')))"

definition dispatch_up :: "call_env \<times> u8 \<times> AlgoRunner \<Rightarrow> bool" where
  "dispatch_up s \<longleftrightarrow> (case s of (env, caps, h) \<Rightarrow> runner_ok h \<and> outImpl h \<noteq> None)"

definition next_ticket :: "call_env \<Rightarrow> AlgoRunner \<Rightarrow> u64" where
  "next_ticket env h = make_ticket (ce_clock env) (static_seq h)"

definition handle_tickets :: "AlgoRunner \<Rightarrow> tickets" where
  "handle_tickets h = (case outImpl h of None \<Rightarrow> Map.empty | Some r \<Rightarrow> runner_tickets r)"

lemma handleEnvelope_nonblocking:
  assumes "requested sreq = Some q" and "q \<in> allowed caps" and "sreq_mode sreq = NONBLOCKING"
    and "outImpl h = Some r" and "impl_enqueue (ce_clock env) (static_seq h) sreq r = (jid, seq', r')"
  shows "handleEnvelope env (Some (env_submit sreq)) caps resp0 h =
    Inr (EC_SUCCESS, Some (resp_submit (ticket_answer jid)), no_output,
      h\<lparr>outImpl := Some r', static_seq := seq'\<rparr>)"
proof -
  have "sreq_payload sreq \<noteq> None" using assms(1) by (cases "sreq_payload sreq") (simp_all add: requested_def)
  moreover have "clientHasCapabilityFor sreq caps" using assms(1,2) capability_iff by blast
  ultimately show ?thesis
    using assms(3-5)
    by (auto simp: handleEnvelope_def AlgoRunner_run_def impl_run_def ticket_answer_def SubmitResponse_default_def)
qed

lemma handleEnvelope_get:
  assumes "outImpl h = Some r" and "impl_get (ce_now env) (ce_script env) g GetResponse_default r = Inr (rc, gresp, r')"
  shows "handleEnvelope env (Some (env_get g)) caps resp0 h =
    Inr (rc, Some (resp_get gresp), no_output, h\<lparr>outImpl := Some r'\<rparr>)"
  using assms by (simp add: handleEnvelope_def AlgoRunner_get_def)

text \<open>Both kinds of request against the specification, on the runner of the server.\<close>

lemma handleEnvelope_submit_spec:
  assumes "runner_ok h" and "outImpl h = Some r" and "sreq_mode sreq \<in> {BLOCKING, NONBLOCKING}"
    and "spec_submit caps (next_ticket env h) sreq (handle_tickets h) = Inr (a, T)"
  shows "\<exists>rc out h'. handleEnvelope env (Some (env_submit sreq)) caps None h =
      Inr (rc, Some (resp_submit a), out, h') \<and> runner_ok h' \<and> outImpl h' \<noteq> None \<and> handle_tickets h' = T"
proof (cases "\<exists>p \<in> allowed caps. requested sreq = Some p")
  case False
  then show ?thesis
    using assms handleEnvelope_refused [of sreq caps env h] by (auto simp: spec_submit_def)
next
  case True
  then obtain p where p: "requested sreq = Some p" "p \<in> allowed caps" by blast
  show ?thesis
  proof (cases "sreq_mode sreq = BLOCKING")
    case True
    with p assms handleEnvelope_blocking [OF p True assms(2), of env None] show ?thesis
      by (auto simp: spec_submit_def cpp_bind_eq_Inr)
  next
    case False
    with assms(3) have md: "sreq_mode sreq = NONBLOCKING" by simp
    have inv: "runner_inv r" "running r" using assms(1,2) by (simp_all add: runner_ok_def)
    obtain seq' r' where enq: "impl_enqueue (ce_clock env) (static_seq h) sreq r = (next_ticket env h, seq', r')"
      by (simp add: impl_enqueue_def Let_def next_ticket_def)
    moreover have "running r'" using enq inv(2) by (auto simp: impl_enqueue_def Let_def)
    ultimately show ?thesis
      using p False assms(2,4) handleEnvelope_nonblocking [OF p md assms(2) enq, of None]
        runner_inv_enqueue [OF inv(1) enq] tickets_enqueue [OF inv(1) enq]
      by (auto simp: spec_submit_def runner_ok_def handle_tickets_def)
  qed
qed

lemma impl_get_nowait:
  assumes inv: "runner_inv r" and "greq_wait_mode g = NO_WAIT" and "spec_get (greq_id g) (runner_tickets r) = (a, T)"
  shows "\<exists>r'. impl_get now script g GetResponse_default r = Inr (EC_SUCCESS, a, r') \<and> runner_tickets r' = T"
proof (cases "jobs r (greq_id g)")
  case None
  with assms(3) show ?thesis
    by (auto simp: impl_get_def findJobById_def Let_def spec_get_def runner_tickets_def GetResponse_default_def)
next
  case (Some x)
  then obtain resp r' where "collect_job (greq_id g) x GetResponse_default r = Inr (EC_SUCCESS, resp, r')"
    using collect_job_returns [OF inv] by blast
  with Some assms tickets_collect [OF inv Some this] show ?thesis
    by (simp add: impl_get_def findJobById_def Let_def)
qed

lemma handleEnvelope_get_spec:
  assumes "runner_ok h" and "outImpl h = Some r" and "greq_wait_mode g = NO_WAIT"
    and "spec_get (greq_id g) (handle_tickets h) = (a, T)"
  shows "\<exists>rc h'. handleEnvelope env (Some (env_get g)) caps None h =
      Inr (rc, Some (resp_get a), no_output, h') \<and> runner_ok h' \<and> outImpl h' \<noteq> None \<and> handle_tickets h' = T"
proof -
  have inv: "runner_inv r" "running r" using assms(1,2) by (simp_all add: runner_ok_def)
  have "spec_get (greq_id g) (runner_tickets r) = (a, T)" using assms(2,4) by (simp add: handle_tickets_def)
  from impl_get_nowait [OF inv(1) assms(3) this] obtain r' where
      r': "impl_get (ce_now env) (ce_script env) g GetResponse_default r = Inr (EC_SUCCESS, a, r')" "runner_tickets r' = T"
    by blast
  with handleEnvelope_get [OF assms(2) r'(1), of caps None] runner_inv_get [OF inv(1) r'(1)]
    impl_get_running [OF r'(1)] inv(2)
  show ?thesis by (auto simp: runner_ok_def handle_tickets_def)
qed

interpretation srv: envelope_service dispatch dispatch_up "\<lambda>(env, caps, h). caps"
  "\<lambda>(env, caps, h). next_ticket env h" "\<lambda>(env, caps, h). handle_tickets h"
proof (unfold_locales, goal_cases)
  case (1 s sreq a T)
  obtain env caps h where s: "s = (env, caps, h)" by (cases s)
  with 1 obtain r where "runner_ok h" "outImpl h = Some r" by (auto simp: dispatch_up_def)
  from handleEnvelope_submit_spec [OF this 1(2), of caps env a T] 1(3) s show ?case
    by (force simp: dispatch_def dispatch_up_def)
next
  case (2 s g a' T)
  obtain env caps h where s: "s = (env, caps, h)" by (cases s)
  with 2 obtain r where "runner_ok h" "outImpl h = Some r" by (auto simp: dispatch_up_def)
  from handleEnvelope_get_spec [OF this 2(2), of a' T env caps] 2(3) s show ?case
    by (force simp: dispatch_def dispatch_up_def)
qed

section \<open>One exchange over the wire\<close>

text \<open>
  Both sides can serialise what they send and parse what they receive; the router puts the identity of
  the client before its frame, and the client receives the body the server sent.
\<close>

definition wired :: "codec \<Rightarrow> EnvelopeReq \<Rightarrow> string \<Rightarrow> EnvelopeResp \<Rightarrow> string \<Rightarrow> bool" where
  "wired cd req buf resp body \<longleftrightarrow>
     ser_req cd req = Some buf \<and> parse_req cd buf = Some req \<and>
     ser_resp cd resp = Some body \<and> parse_resp cd body = Some resp"

definition linked :: "string \<Rightarrow> loop_env \<Rightarrow> cmd_env \<Rightarrow> string \<Rightarrow> string \<Rightarrow> bool" where
  "linked cid senv cenv buf body \<longleftrightarrow>
     sends_ok senv \<and> le_recv senv = Recv_frames [cid, buf] \<and>
     (\<exists>n. cl_send (cmd_call cenv) = Sent n) \<and> cl_recv (cmd_call cenv) = Recv_frames [body]"

lemma linked_answered:
  "wired cd req buf resp body \<Longrightarrow> linked cid senv cenv buf body \<Longrightarrow> answered cd cenv req buf resp"
  by (auto simp: wired_def linked_def answered_def)

lemma linked_pass:
  assumes "wired cd req buf resp body" and "linked cid senv cenv buf body"
    and "mClientExecCaps app cid = Some caps"
    and "handleEnvelope (le_call senv) req caps None (mAlgoRunner app) = Inr (rc, resp, out, h')"
  shows "server_pass cd senv app =
    Inr (app\<lparr>mAlgoRunner := h'\<rparr>, [(cid, True), (body, False)], Continue)"
  using assms by (intro pass_answered) (auto simp: wired_def linked_def)

text \<open>The request a mathematical command makes, when its value fits.\<close>

definition math_request :: "SubmitMode \<Rightarrow> MathOp \<Rightarrow> i32 \<Rightarrow> i32 \<Rightarrow> SubmitRequest" where
  "math_request md M a b =
     \<lparr>sreq_mode = md, sreq_payload = Some (math \<lparr>math_op = M, math_a = a, math_b = b\<rparr>)\<rparr>"

lemma typed_math:
  "isBlockToken m \<Longrightarrow> typed_request m (math \<lparr>math_op = M, math_a = a, math_b = b\<rparr>) =
     Some (env_submit (math_request BLOCKING M a b))"
  "isNonblockToken m \<Longrightarrow> typed_request m (math \<lparr>math_op = M, math_a = a, math_b = b\<rparr>) =
     Some (env_submit (math_request NONBLOCKING M a b))"
  using modes_disjoint by (auto simp: typed_request_def math_request_def)

lemma math_request_value:
  assumes "math_value M (sint a) (sint b) = Some v" and "in_i32 v"
  shows "compute (math_request md M a b) = Inr (ST_SUCCESS, Some (int_result (word_of_int v)))"
    "\<forall>n. M \<noteq> MathOp_other n" "sint (word_of_int v :: i32) = v"
proof -
  show "compute (math_request md M a b) = Inr (ST_SUCCESS, Some (int_result (word_of_int v)))"
    using assms runMath_eq_value [of "\<lparr>math_op = M, math_a = a, math_b = b\<rparr>" v]
    by (simp add: compute_def math_request_def del: runMath.simps)
  show "\<forall>n. M \<noteq> MathOp_other n" using assms(1) by auto
  show "sint (word_of_int v :: i32) = v" using assms(2) by (rule sint_word_of_int_i32)
qed

section \<open>Properties\<close>

text \<open>
  C7: a blocking command shows the right number. When a client that may use the operation types a
  blocking mathematical command and the exact value fits 32 bits, the server answers it in one pass and
  the client prints that value in decimal; neither side keeps anything.
\<close>

theorem blocking_session:
  assumes "server_inv app" and "mInitialized app" and "mClientExecCaps app cid = Some caps"
    and "isBlockToken m" and "insensitiveEquals p (math_word M)"
    and "math_value M (sint a) (sint b) = Some v" and "in_i32 v"
    and "requested (math_request BLOCKING M a b) = Some q" and "q \<in> allowed caps"
    and "wired cd (Some (env_submit (math_request BLOCKING M a b))) buf
      (Some (resp_submit (int_answer (word_of_int v)))) body"
    and "linked cid senv cenv buf body"
  shows "server_pass cd senv app = Inr (app, [(cid, True), (body, False)], Continue) \<and>
    client_command cd cenv (math_line m p a b) pending =
      Inr (Next, ''Result: Int='' @ show_int v @ nl, [(buf, False)], pending)"
proof
  from assms(1,2) obtain r where r: "outImpl (mAlgoRunner app) = Some r" by (auto simp: server_inv_def)
  note val = math_request_value [OF assms(6,7)]
  have "sreq_mode (math_request BLOCKING M a b) = BLOCKING" by (simp add: math_request_def)
  from handleEnvelope_blocking [OF assms(8,9) this r, of "le_call senv" None] val(1)
  have "\<exists>out. handleEnvelope (le_call senv) (Some (env_submit (math_request BLOCKING M a b))) caps None (mAlgoRunner app) =
      Inr (EC_SUCCESS, Some (resp_submit (int_answer (word_of_int v))), out, mAlgoRunner app)"
    by (simp add: int_answer_def)
  with linked_pass [OF assms(10,11,3)]
  show "server_pass cd senv app = Inr (app, [(cid, True), (body, False)], Continue)" by force
  have "mode_token m" using assms(4) by (simp add: mode_token_def)
  from math_command_answered [OF this assms(5) val(2)] linked_answered [OF assms(10,11)]
  show "client_command cd cenv (math_line m p a b) pending =
      Inr (Next, ''Result: Int='' @ show_int v @ nl, [(buf, False)], pending)"
    using val(3) by (simp add: typed_math(1) [OF assms(4)])
qed

text \<open>A codec for the exchanges of two requests, and both ends of an exchange over it.\<close>

definition two_codec ::
  "EnvelopeReq \<Rightarrow> EnvelopeResp \<Rightarrow> EnvelopeReq \<Rightarrow> EnvelopeResp \<Rightarrow> codec" where
  "two_codec q1 r1 q2 r2 =
     \<lparr>ser_handshake = (\<lambda>h. None), parse_handshake = (\<lambda>b. None),
      ser_req = (\<lambda>e. if e = q1 then Some ''q'' else if e = q2 then Some ''p'' else None),
      parse_req = (\<lambda>b. if b = ''q'' then Some q1 else if b = ''p'' then Some q2 else None),
      ser_resp = (\<lambda>e. if e = r1 then Some ''r'' else if e = r2 then Some ''s'' else None),
      parse_resp = (\<lambda>b. if b = ''r'' then Some r1 else if b = ''s'' then Some r2 else None)\<rparr>"

definition reply_env :: "string \<Rightarrow> cmd_env" where
  "reply_env body = pair_env\<lparr>cmd_call := (cmd_call pair_env)\<lparr>cl_recv := Recv_frames [body]\<rparr>\<rparr>"

lemma wired_two [simp]: "wired (two_codec q1 r1 q2 r2) q1 ''q'' r1 ''r''"
  "q1 \<noteq> q2 \<Longrightarrow> r1 \<noteq> r2 \<Longrightarrow> wired (two_codec q1 r1 q2 r2) q2 ''p'' r2 ''s''"
  by (simp_all add: wired_def two_codec_def)

lemma linked_demo [simp]: "linked cid (demo_env [cid, buf]) (reply_env body) buf body"
  by (simp add: linked_def reply_env_def pair_env_def)

theorem blocking_session_witness:
  "\<exists>cd. server_pass cd (demo_env [''c1'', ''q'']) (demo_server 4) =
       Inr (demo_server 4, [(''c1'', True), (''r'', False)], Continue) \<and>
     client_command cd (reply_env ''r'') (math_line ''block'' ''mult'' 6 7) Map.empty =
       Inr (Next, ''Result: Int='' @ show_int 42 @ nl, [(''q'', False)], Map.empty)"
proof -
  let ?q = "Some (env_submit (math_request BLOCKING MATH_MUL 6 7))"
  let ?cd = "two_codec ?q (Some (resp_submit (int_answer (word_of_int 42)))) None None"
  have "Op_mult \<in> allowed 4" "requested (math_request BLOCKING MATH_MUL 6 7) = Some Op_mult"
      "isBlockToken ''block''" "insensitiveEquals ''mult'' (math_word MATH_MUL)"
      "mClientExecCaps (demo_server 4) ''c1'' = Some 4"
    by (simp_all add: allowed_def requested_def math_request_def isBlockToken_def)
  then show ?thesis
    by (intro exI [of _ ?cd] blocking_session [OF demo_server_inv, where q = Op_mult and caps = 4 and M = MATH_MUL])
      (simp_all add: in_i32_def)
qed

section \<open>A session by ticket\<close>

definition get_answer :: "i32 \<Rightarrow> GetResponse" where
  "get_answer i = \<lparr>gresp_status = ST_SUCCESS, gresp_result = Some (Some (int_result i))\<rparr>"

lemma answer_texts:
  "printSubmit site (ticket_answer t) = ''IPC Info: [NOT_FINISHED]'' @ nl @ ''ticket='' @ ticket_text t @ nl"
  "printGet site (get_answer i) = ''Result: Int='' @ show_int (sint i) @ nl"
  by (simp_all add: printSubmit_def ticket_answer_def printGet_def get_answer_def result_text_def
      PRINT_ERROR_NO_RET_def handleIpcError_def no_output_def)

text \<open>
  C1: a non-blocking command can be completed by its ticket. The submission is answered at once with a
  ticket, which the client prints and keeps; the workers have a schedule that finishes the job; and
  then the line \<open>get <ticket>\<close> shows the exact value and forgets the ticket.
\<close>

theorem nonblocking_session:
  assumes "server_inv app" and "outImpl (mAlgoRunner app) = Some r" and "mClientExecCaps app cid = Some caps"
    and "workers r \<noteq> []" and "all_defined r"
    and "isNonblockToken m" and "insensitiveEquals p (math_word M)"
    and "math_value M (sint a) (sint b) = Some v" and "in_i32 v"
    and "requested (math_request NONBLOCKING M a b) = Some q" and "q \<in> allowed caps"
    and "t = make_ticket (ce_clock (le_call senv)) (static_seq (mAlgoRunner app))"
    and "wired cd (Some (env_submit (math_request NONBLOCKING M a b))) buf
      (Some (resp_submit (ticket_answer t))) body"
    and "linked cid senv cenv buf body"
    and "wired cd (typed_get \<lparr>req_id = t\<rparr> None) buf' (Some (resp_get (get_answer (word_of_int v)))) body'"
    and "linked cid senv' cenv' buf' body'"
  shows "\<exists>app1 ws app2 app3.
    server_pass cd senv app = Inr (app1, [(cid, True), (body, False)], Continue) \<and>
    client_command cd cenv (math_line m p a b) pending =
      Inr (Next, ''IPC Info: [NOT_FINISHED]'' @ nl @ ''ticket='' @ ticket_text t @ nl, [(buf, False)],
        pending(t \<mapsto> \<lparr>req_id = t\<rparr>)) \<and>
    background ws app1 = Inr app2 \<and>
    server_pass cd senv' app2 = Inr (app3, [(cid, True), (body', False)], Continue) \<and>
    client_command cd cenv' (get_line t None) (pending(t \<mapsto> \<lparr>req_id = t\<rparr>)) =
      Inr (Next, ''Result: Int='' @ show_int v @ nl, [(buf', False)], pending(t := None))"
proof -
  let ?h = "mAlgoRunner app" and ?req = "math_request NONBLOCKING M a b"
  note val = math_request_value [OF assms(8,9)]
  have inv: "runner_inv r" "running r" using assms(1,2) by (simp_all add: server_inv_def runner_ok_def)
  obtain seq' r1 where enq: "impl_enqueue (ce_clock (le_call senv)) (static_seq ?h) ?req r = (t, seq', r1)"
    by (simp add: impl_enqueue_def Let_def assms(12))
  obtain r2 where r2: "run_workers (drain_schedule r1) r1 = Inr r2"
      "\<And>now script g. greq_id g = t \<Longrightarrow> greq_wait_mode g = NO_WAIT \<Longrightarrow>
        \<exists>r3. impl_get now script g GetResponse_default r2 = Inr (EC_SUCCESS, get_answer (word_of_int v), r3)"
    using submit_drain_get [OF inv(1) assms(5,4) inv(2) val(1) enq] by (auto simp: get_answer_def)
  let ?app1 = "app\<lparr>mAlgoRunner := ?h\<lparr>outImpl := Some r1, static_seq := seq'\<rparr>\<rparr>"
  let ?app2 = "app\<lparr>mAlgoRunner := ?h\<lparr>outImpl := Some r2, static_seq := seq'\<rparr>\<rparr>"
  have mode: "sreq_mode ?req = NONBLOCKING" by (simp add: math_request_def)
  have 1: "server_pass cd senv app = Inr (?app1, [(cid, True), (body, False)], Continue)"
    by (rule linked_pass [OF assms(13,14,3) handleEnvelope_nonblocking [OF assms(10,11) mode assms(2) enq]])
  have 2: "background (drain_schedule r1) ?app1 = Inr ?app2" using r2(1) by (simp add: background_def)
  obtain g where g: "typed_get \<lparr>req_id = t\<rparr> None = Some (env_get g)" "greq_id g = t" "greq_wait_mode g = NO_WAIT"
    by (simp add: typed_get_def greq_id_def)
  obtain r3 where r3: "impl_get (ce_now (le_call senv')) (ce_script (le_call senv')) g GetResponse_default r2 =
      Inr (EC_SUCCESS, get_answer (word_of_int v), r3)" using r2(2) [OF g(2,3)] by blast
  have "\<exists>app3. server_pass cd senv' ?app2 = Inr (app3, [(cid, True), (body', False)], Continue)"
    using linked_pass [OF assms(15) [unfolded g(1)] assms(16) _ handleEnvelope_get [OF _ r3], of ?app2 caps] assms(3)
    by simp
  moreover have "mode_token m" using assms(6) by (simp add: mode_token_def)
  from math_command_answered [OF this assms(7) val(2)] linked_answered [OF assms(13,14)]
  have "client_command cd cenv (math_line m p a b) pending =
      Inr (Next, ''IPC Info: [NOT_FINISHED]'' @ nl @ ''ticket='' @ ticket_text t @ nl, [(buf, False)],
        pending(t \<mapsto> \<lparr>req_id = t\<rparr>))"
    using assms(6) answer_texts(1) by (simp add: typed_math(2) ticket_answer_def)
  moreover have "client_command cd cenv' (get_line t None) (pending(t \<mapsto> \<lparr>req_id = t\<rparr>)) =
      Inr (Next, ''Result: Int='' @ show_int v @ nl, [(buf', False)], pending(t := None))"
    using ticket_command_answered [of "pending(t \<mapsto> \<lparr>req_id = t\<rparr>)" t "\<lparr>req_id = t\<rparr>", OF _ linked_answered [OF assms(15,16)]]
      answer_texts(2) val(3) by (simp add: get_answer_def)
  ultimately show ?thesis using 1 2 by blast
qed

theorem nonblocking_session_witness:
  "\<exists>cd app1 ws app2 app3.
    server_pass cd (demo_env [''c1'', ''q'']) (demo_server 4) = Inr (app1, [(''c1'', True), (''r'', False)], Continue) \<and>
    background ws app1 = Inr app2 \<and>
    server_pass cd (demo_env [''c1'', ''p'']) app2 = Inr (app3, [(''c1'', True), (''s'', False)], Continue) \<and>
    client_command cd (reply_env ''s'') (get_line 327680 None) [327680 \<mapsto> \<lparr>req_id = 327680\<rparr>] =
      Inr (Next, ''Result: Int='' @ show_int 42 @ nl, [(''p'', False)], Map.empty)"
proof -
  let ?q = "Some (env_submit (math_request NONBLOCKING MATH_MUL 6 7))"
  let ?cd = "two_codec ?q (Some (resp_submit (ticket_answer 327680))) (typed_get \<lparr>req_id = 327680\<rparr> None)
    (Some (resp_get (get_answer (word_of_int 42))))"
  have facts: "Op_mult \<in> allowed 4" "requested (math_request NONBLOCKING MATH_MUL 6 7) = Some Op_mult"
      "isNonblockToken ''async''" "insensitiveEquals ''mult'' (math_word MATH_MUL)"
      "mClientExecCaps (demo_server 4) ''c1'' = Some 4" "outImpl (mAlgoRunner (demo_server 4)) = Some demo_runner"
      "workers demo_runner \<noteq> []" "all_defined demo_runner"
      "327680 = make_ticket (ce_clock (le_call (demo_env [''c1'', ''q'']))) (static_seq (mAlgoRunner (demo_server 4)))"
      "math_value MATH_MUL (sint (6 :: i32)) (sint (7 :: i32)) = Some 42" "in_i32 42"
    by (simp_all add: allowed_def requested_def math_request_def isNonblockToken_def demo_runner_def
        AlgoRunnerIpml_new_def all_defined_def demo_env_def make_ticket_def in_i32_def)
  have get: "wired ?cd (typed_get \<lparr>req_id = 327680\<rparr> None) ''p'' (Some (resp_get (get_answer (word_of_int 42)))) ''s''"
    by (rule wired_two) (simp_all add: typed_get_def)
  have none: "(Map.empty :: pending_map)(327680 := None) = Map.empty" by simp
  from nonblocking_session [OF demo_server_inv facts(6,5,7,8,3,4,10,11,2,1,9) wired_two(1) linked_demo get linked_demo,
      of Map.empty, unfolded none]
  show ?thesis by blast
qed

section \<open>Every command against the specification\<close>

text \<open>The tickets a server has given out.\<close>

definition server_tickets :: "ServerApp \<Rightarrow> tickets" where
  "server_tickets app = handle_tickets (mAlgoRunner app)"

lemma linked_dispatch:
  assumes "wired cd req buf resp body" and "linked cid senv cenv buf body"
    and "mClientExecCaps app cid = Some caps"
    and "dispatch req (le_call senv, caps, mAlgoRunner app) = Inr (resp, s')"
  shows "\<exists>app'. server_pass cd senv app = Inr (app', [(cid, True), (body, False)], Continue) \<and>
    server_tickets app' = (case s' of (env, caps, h) \<Rightarrow> handle_tickets h)"
proof -
  from assms(4) obtain rc out h' where
      "handleEnvelope (le_call senv) req caps None (mAlgoRunner app) = Inr (rc, resp, out, h')"
      "s' = (le_call senv, caps, h')"
    by (auto simp: dispatch_def cpp_bind_eq_Inr)
  with linked_pass [OF assms(1-3) this(1)] show ?thesis by (simp add: server_tickets_def)
qed

lemma dispatch_upI: "server_inv app \<Longrightarrow> mInitialized app \<Longrightarrow> dispatch_up (env, caps, mAlgoRunner app)"
  by (simp add: dispatch_up_def server_inv_def)

lemma op_command_session:
  assumes "server_inv app" and "mInitialized app" and "mClientExecCaps app cid = Some caps"
    and c: "mode_token m" "insensitiveEquals p (op_word pl)" "typeable pl"
    and spec: "spec_submit caps (next_ticket (le_call senv) (mAlgoRunner app)) (typed_submit m pl) (server_tickets app) = Inr (a, T)"
    and w: "wired cd (Some (env_submit (typed_submit m pl))) buf (Some (resp_submit a)) body"
      "linked cid senv cenv buf body"
  shows "(\<exists>app'. server_pass cd senv app = Inr (app', [(cid, True), (body, False)], Continue) \<and>
      server_tickets app' = T) \<and>
    client_command cd cenv (op_line m p pl) pending =
      Inr (Next, printSubmit (cl_site (cmd_call cenv)) a, [(buf, False)], keep_ticket m a pending)"
proof -
  note served = srv.op_command_served [OF dispatch_upI [OF assms(1,2), of "le_call senv" caps] c _ linked_answered [OF w],
      simplified split_conv, OF spec [unfolded server_tickets_def], of pending]
  then obtain s' where "dispatch (Some (env_submit (typed_submit m pl))) (le_call senv, caps, mAlgoRunner app) =
      Inr (Some (resp_submit a), s')" "(case s' of (env, caps, h) \<Rightarrow> handle_tickets h) = T" by blast
  with linked_dispatch [OF w assms(3) this(1)] served show ?thesis by simp
qed

lemma get_command_session:
  assumes "server_inv app" and "mInitialized app" and "mClientExecCaps app cid = Some caps"
    and c: "pending t = Some ticket"
    and spec: "spec_get (req_id ticket) (server_tickets app) = (a, T)"
    and w: "wired cd (typed_get ticket None) buf (Some (resp_get a)) body" "linked cid senv cenv buf body"
  shows "(\<exists>app'. server_pass cd senv app = Inr (app', [(cid, True), (body, False)], Continue) \<and>
      server_tickets app' = T) \<and>
    client_command cd cenv (get_line t None) pending =
      Inr (Next, printGet (cl_site (cmd_call cenv)) a, [(buf, False)],
        if gresp_status a \<noteq> ST_NOT_FINISHED then pending(t := None) else pending)"
proof -
  note served = srv.get_command_served [of _ pending t, OF dispatch_upI [OF assms(1,2), of "le_call senv" caps] c _
      linked_answered [OF w], simplified split_conv, OF spec [unfolded server_tickets_def]]
  then obtain s' where "dispatch (typed_get ticket None) (le_call senv, caps, mAlgoRunner app) =
      Inr (Some (resp_get a), s')" "(case s' of (env, caps, h) \<Rightarrow> handle_tickets h) = T" by blast
  with linked_dispatch [OF w assms(3) this(1)] served show ?thesis by simp
qed

text \<open>
  C3: client and server together implement the specification, for every operation a registered client
  asks for and for every collection without waiting. A line for any of the six operations, in any spelling of the mode and of the
  operation, is answered in one pass, to that client, with exactly the answer due: the refusal if the
  mask lacks the operation, the status and result of the computation if it is blocking, the ticket if it
  is not. The server's table changes accordingly, the client prints that answer and keeps the ticket.
  The line \<open>get <ticket>\<close> is answered by the state of that ticket's request (unknown, unfinished, or its
  outcome, which leaves the table), printed, and the ticket forgotten unless unfinished.
\<close>

theorem command_session:
  assumes "server_inv app" and "mInitialized app" and "mClientExecCaps app cid = Some caps"
  shows "(\<forall>m p pl a T cd buf body senv cenv.
      mode_token m \<longrightarrow> insensitiveEquals p (op_word pl) \<longrightarrow> typeable pl \<longrightarrow>
      spec_submit caps (next_ticket (le_call senv) (mAlgoRunner app)) (typed_submit m pl) (server_tickets app) = Inr (a, T) \<longrightarrow>
      wired cd (Some (env_submit (typed_submit m pl))) buf (Some (resp_submit a)) body \<longrightarrow>
      linked cid senv cenv buf body \<longrightarrow>
      (\<exists>app'. server_pass cd senv app = Inr (app', [(cid, True), (body, False)], Continue) \<and>
         server_tickets app' = T) \<and>
      client_command cd cenv (op_line m p pl) pending =
        Inr (Next, printSubmit (cl_site (cmd_call cenv)) a, [(buf, False)], keep_ticket m a pending)) \<and>
    (\<forall>t ticket a T cd buf body senv cenv.
      pending t = Some ticket \<longrightarrow> spec_get (req_id ticket) (server_tickets app) = (a, T) \<longrightarrow>
      wired cd (typed_get ticket None) buf (Some (resp_get a)) body \<longrightarrow> linked cid senv cenv buf body \<longrightarrow>
      (\<exists>app'. server_pass cd senv app = Inr (app', [(cid, True), (body, False)], Continue) \<and>
         server_tickets app' = T) \<and>
      client_command cd cenv (get_line t None) pending =
        Inr (Next, printGet (cl_site (cmd_call cenv)) a, [(buf, False)],
          if gresp_status a \<noteq> ST_NOT_FINISHED then pending(t := None) else pending))"
  using op_command_session [OF assms, of _ _ _ _ _ _ _ _ _ _ pending] get_command_session [OF assms, of pending]
  by blast

theorem command_session_witness:
  "\<exists>cd app'. server_pass cd (demo_env [''c1'', ''q'']) (demo_server 16) =
       Inr (app', [(''c1'', True), (''r'', False)], Continue) \<and> server_tickets app' = Map.empty \<and>
     client_command cd (reply_env ''r'') ''sync concat foo bar'' Map.empty =
       Inr (Next, ''Result: Str=foobar'' @ nl, [(''q'', False)], Map.empty)"
proof -
  let ?pl = "str \<lparr>str_op = STR_CONCAT, str_s1 = ''foo'', str_s2 = ''bar''\<rparr>"
  let ?a = "\<lparr>sresp_status = ST_SUCCESS, sresp_ticket = None, sresp_result = Some (Some (str_result ''foobar''))\<rparr>"
  let ?cd = "two_codec (Some (env_submit (typed_submit ''sync'' ?pl))) (Some (resp_submit ?a)) None None"
  have c: "mode_token ''sync''" "insensitiveEquals ''concat'' (op_word ?pl)" "typeable ?pl" "isBlockToken ''sync''"
    by (simp_all add: mode_token_def isBlockToken_def is_word_def is_space_def)
  have T: "server_tickets (demo_server 16) = Map.empty"
    by (simp add: server_tickets_def handle_tickets_def demo_runner_def AlgoRunnerIpml_new_def runner_tickets_def fun_eq_iff)
  have spec: "spec_submit 16 t (typed_submit ''sync'' ?pl) (server_tickets (demo_server 16)) = Inr (?a, Map.empty)" for t
    using c(4) by (simp add: spec_submit_def typed_submit_def requested_def allowed_def compute_def T)
  have "op_line ''sync'' ''concat'' ?pl = ''sync concat foo bar''" by (simp add: str_line_def)
  moreover have "keep_ticket ''sync'' ?a Map.empty = Map.empty" by (simp add: keep_ticket_def)
  moreover have "printSubmit site ?a = ''Result: Str=foobar'' @ nl" for site
    by (simp add: printSubmit_def result_text_def PRINT_ERROR_NO_RET_def handleIpcError_def no_output_def c_str_def)
  moreover have caps: "mClientExecCaps (demo_server 16) ''c1'' = Some 16" by simp
  ultimately show ?thesis
    using command_session [OF demo_server_inv _ caps, of Map.empty, THEN conjunct1, rule_format,
        OF _ c(1-3) spec, of ?cd "''q''" "''r''" "demo_env [''c1'', ''q'']" "reply_env ''r''"] by auto
qed

section \<open>Replies that are late\<close>
















end
