(* ===== verification/Programs.thy ===== *)
theory Programs
  imports Session
begin

unbundle bit_operations_syntax

text \<open>
  The C interface of the shared libraries (\<^verbatim>\<open>src/sources/ipc.cpp\<close>,
  \<^verbatim>\<open>ipc_server.cpp\<close>, \<^verbatim>\<open>ipc_clients.cpp\<close>) and the three programs
  built on it (\<^verbatim>\<open>server.cpp\<close>, \<^verbatim>\<open>client_1.cpp\<close>,
  \<^verbatim>\<open>client_2.cpp\<close>). The parsed command-line options, the file system, the dynamic
  linker and the logger are arguments; each program yields its exit code.
\<close>

section \<open>Logging\<close>

text \<open>\<open>opened\<close> tells whether the rotating logger could be made, or its constructor threw.\<close>

definition initializeLogging :: "bool \<Rightarrow> int" where
  "initializeLogging opened = (if opened then EC_SUCCESS else EC_FAILURE)"

definition deinitializeLogging :: int where
  "deinitializeLogging = EC_SUCCESS"

definition log_path :: "string \<Rightarrow> string \<Rightarrow> string" where
  "log_path fallback dir = (if dir = [] then fallback else dir @ ''/log.txt'')"

section \<open>The server library\<close>

definition serverInitialize ::
  "check_site \<Rightarrow> bool list \<Rightarrow> bool \<Rightarrow> string \<Rightarrow> int \<Rightarrow> int \<Rightarrow> server_globals
    \<Rightarrow> (int \<times> server_globals) cpp" where
  "serverInitialize site created bound address port threads g =
     (case server_create address port threads g of (result, g1) \<Rightarrow>
        (case RETURN_IF_ERROR (Int_status result) site of
           Inl rc \<Rightarrow> Inr (rc, g1)
         | Inr _ \<Rightarrow>
             cpp_bind (server_get g1) (\<lambda>app.
             cpp_bind (server_init_app site created bound app) (\<lambda>(result, app').
               let g2 = g1\<lparr>srvPtr := Some app'\<rparr> in
               case RETURN_IF_ERROR (Int_status result) site of
                 Inl rc \<Rightarrow> Inr (rc, g2)
               | Inr _ \<Rightarrow> Inr (EC_SUCCESS, g2)))))"

definition serverRun ::
  "check_site \<Rightarrow> codec \<Rightarrow> (bool \<times> worker_event list \<times> loop_env) list \<Rightarrow> server_globals
    \<Rightarrow> (int \<times> server_globals \<times> frame list) cpp" where
  "serverRun site cd evs g =
     cpp_bind (server_get g) (\<lambda>app.
     cpp_bind (server_run cd evs app) (\<lambda>(result, app', fs).
       let g' = g\<lparr>srvPtr := Some app'\<rparr> in
       case RETURN_IF_ERROR (Int_status result) site of
         Inl rc \<Rightarrow> Inr (rc, g', fs)
       | Inr _ \<Rightarrow> Inr (EC_SUCCESS, g', fs)))"

text \<open>The signal handlers store \<^const>\<open>True\<close> into the stop flag, whatever it held.\<close>

definition stopHandleServer :: "int \<Rightarrow> bool \<Rightarrow> bool" where
  "stopHandleServer signo sigStop = True"

definition serverDeinitialize ::
  "check_site \<Rightarrow> stop_schedule \<Rightarrow> server_globals \<Rightarrow> (int \<times> server_globals) cpp" where
  "serverDeinitialize site ws g =
     cpp_bind (server_get g) (\<lambda>app.
     cpp_bind (server_deinit_app site ws app) (\<lambda>(rc, app'). Inr (rc, g\<lparr>srvPtr := Some app'\<rparr>)))"

section \<open>The client library\<close>

record client_world =
  cw_log_ok :: "string \<Rightarrow> bool" \<comment> \<open>by the path of the log file\<close>
  cw_draws :: "nat list"
  cw_env :: client_env \<comment> \<open>the send of the handshake\<close>
  cw_connected :: "int option"
  cw_codec :: codec
  cw_script :: loop_script
  cw_stdin :: string

definition clientInitialize ::
  "client_world \<Rightarrow> string \<Rightarrow> int \<Rightarrow> int \<Rightarrow> u8 \<Rightarrow> client_globals \<Rightarrow> (int \<times> client_globals \<times> frame list) cpp" where
  "clientInitialize w address port receiveTimeoutMs execFunFlags g =
     (if \<not> verifyExecCaps execFunFlags then Inr (EC_FAILURE, g, [])
      else
        (case client_create (cw_draws w) address port receiveTimeoutMs execFunFlags g of (result, g1) \<Rightarrow>
           (case RETURN_IF_ERROR (Int_status result) (cl_site (cw_env w)) of
              Inl rc \<Rightarrow> Inr (rc, g1, [])
            | Inr _ \<Rightarrow>
                cpp_bind (client_get g1) (\<lambda>app.
                  case client_init (cw_codec w) (cw_env w) (cw_connected w) app of (result, app', fs) \<Rightarrow>
                    let g2 = g1\<lparr>cliPtr := Some app'\<rparr> in
                    (case RETURN_IF_ERROR (Int_status result) (cl_site (cw_env w)) of
                       Inl rc \<Rightarrow> Inr (rc, g2, fs)
                     | Inr _ \<Rightarrow> Inr (EC_SUCCESS, g2, fs))))))"

definition clientStart :: "client_world \<Rightarrow> client_globals \<Rightarrow> (int \<times> string \<times> frame list) cpp" where
  "clientStart w g =
     cpp_bind (client_get g) (\<lambda>app.
     cpp_bind (client_run (cw_codec w) (cw_script w) (cw_stdin w)) (\<lambda>(result, out, fs, pending).
       case RETURN_IF_ERROR (Int_status result) (cl_site (cw_env w)) of
         Inl rc \<Rightarrow> Inr (rc, out, fs)
       | Inr _ \<Rightarrow> Inr (EC_SUCCESS, out, fs)))"

definition stopHandleClient :: "int \<Rightarrow> bool \<Rightarrow> bool" where
  "stopHandleClient signo sigStop = True"

definition clientDeinitialize :: "client_globals \<Rightarrow> (int \<times> client_globals) cpp" where
  "clientDeinitialize g =
     cpp_bind (client_get g) (\<lambda>app.
       case client_deinit app of (rc, app') \<Rightarrow> Inr (rc, g\<lparr>cliPtr := Some app'\<rparr>))"

section \<open>The server program\<close>

record server_opts =
  so_help :: bool
  so_port :: int
  so_logging :: string
  so_threads :: int

record server_world =
  sw_log_ok :: "string \<Rightarrow> bool" \<comment> \<open>by the path of the log file\<close>
  sw_site :: check_site
  sw_created :: "bool list"
  sw_bound :: bool
  sw_codec :: codec
  sw_events :: "(bool \<times> worker_event list \<times> loop_env) list"
  sw_stopping :: stop_schedule \<comment> \<open>the workers during the deinitialisation\<close>

text \<open>The result of initialising and running decides what is logged, nothing else.\<close>

definition server_main :: "server_opts \<Rightarrow> server_world \<Rightarrow> server_globals \<Rightarrow> (int \<times> server_globals) cpp" where
  "server_main opts w g =
     (if so_help opts then Inr (0, g)
      else
        let result = initializeLogging (sw_log_ok w (log_path ''./log/log.txt'' (so_logging opts))) in
        if result \<noteq> EC_SUCCESS then Inr (result, g)
        else
          cpp_bind (serverInitialize (sw_site w) (sw_created w) (sw_bound w) ''0.0.0.0''
              (so_port opts) (so_threads opts) g) (\<lambda>(result, g1).
          cpp_bind (if result = EC_SUCCESS
                    then cpp_bind (serverRun (sw_site w) (sw_codec w) (sw_events w) g1)
                           (\<lambda>(result, g2, fs). Inr g2)
                    else Inr g1) (\<lambda>g2.
          cpp_bind (serverDeinitialize (sw_site w) (sw_stopping w) g2) (\<lambda>(result, g3).
          Inr (deinitializeLogging, g3)))))"

section \<open>The client programs\<close>

record client_opts =
  co_help :: bool
  co_address :: string
  co_port :: int
  co_logging :: string
  co_so_path :: string

definition client_1_flags :: u8 where
  "client_1_flags = ADD OR MULT OR CONCAT"

definition client_2_flags :: u8 where
  "client_2_flags = SUB OR DIV OR FIND_START"

text \<open>The part both programs share, from \<^verbatim>\<open>clientInitialize\<close> on.\<close>

definition client_session ::
  "client_world \<Rightarrow> string \<Rightarrow> int \<Rightarrow> u8 \<Rightarrow> client_globals \<Rightarrow> (int \<times> client_globals) cpp" where
  "client_session w address port execFunc g =
     cpp_bind (clientInitialize w address port 3000 execFunc g) (\<lambda>(result, g1, fs).
     cpp_bind (if result = EC_SUCCESS then cpp_bind (clientStart w g1) (\<lambda>_. Inr ()) else Inr ()) (\<lambda>_.
     cpp_bind (clientDeinitialize g1) (\<lambda>(result, g2). Inr (deinitializeLogging, g2))))"

definition client_1_main :: "client_opts \<Rightarrow> client_world \<Rightarrow> client_globals \<Rightarrow> (int \<times> client_globals) cpp" where
  "client_1_main opts w g =
     (if co_help opts then Inr (0, g)
      else
        let result = initializeLogging (cw_log_ok w (log_path ''./client_log_1/log.txt'' (co_logging opts))) in
        if result \<noteq> EC_SUCCESS then Inr (result, g)
        else if c_str (co_address opts) = [] then Inr (EC_FAILURE, g)
        else client_session w (c_str (co_address opts)) (co_port opts) client_1_flags g)"

text \<open>The file system and the dynamic linker, as the second client meets them.\<close>

record loader =
  ld_exists :: "string \<Rightarrow> bool"
  ld_opens :: "string \<Rightarrow> bool"
  ld_symbol :: "string \<Rightarrow> bool"

text \<open>\<^verbatim>\<open>mustSym\<close> ends the program with code 1 when a symbol is missing.\<close>

fun mustSyms :: "loader \<Rightarrow> string list \<Rightarrow> int option" where
  "mustSyms ld [] = None"
| "mustSyms ld (name # names) = (if ld_symbol ld name then mustSyms ld names else Some 1)"

definition client_symbols :: "string list" where
  "client_symbols = [''clientInitialize'', ''clientStart'', ''clientDeinitialize'', ''stopHandleClient'',
     ''initializeLogging'', ''deinitializeLogging'']"

definition client_2_main ::
  "client_opts \<Rightarrow> loader \<Rightarrow> client_world \<Rightarrow> client_globals \<Rightarrow> (int \<times> client_globals) cpp" where
  "client_2_main opts ld w g =
     (if co_help opts then Inr (0, g)
      else if \<not> ld_exists ld (co_so_path opts) then Inr (EC_FAILURE, g)
      else if \<not> ld_opens ld (co_so_path opts) then Inr (EC_FAILURE, g)
      else
        (case mustSyms ld client_symbols of
           Some rc \<Rightarrow> Inr (rc, g)
         | None \<Rightarrow>
             let result = initializeLogging (cw_log_ok w (log_path ''./client_log_2/log.txt'' (co_logging opts))) in
             if result \<noteq> EC_SUCCESS then Inr (result, g)
             else if c_str (co_address opts) = [] then Inr (EC_FAILURE, g)
             else client_session w (c_str (co_address opts)) (co_port opts) client_2_flags g))"

section \<open>Properties\<close>

lemma client_session_code: "client_session w address port flags g = Inr (rc, g') \<Longrightarrow> rc = 0"
  by (auto simp: client_session_def deinitializeLogging_def cpp_bind_eq_Inr EC_SUCCESS_def)

lemma mustSyms_iff:
  "mustSyms ld names = None \<longleftrightarrow> (\<forall>name \<in> set names. ld_symbol ld name)"
  "mustSyms ld names = Some rc \<longleftrightarrow> rc = 1 \<and> \<not> (\<forall>name \<in> set names. ld_symbol ld name)"
  by (induction names) auto

lemma u8_through_u32 [simp]: "ucast (ucast (f :: u8) :: u32) = f"
  by (rule bit_word_eqI) (auto simp: bit_simps dest: bit_imp_le_length)

text \<open>What the first frame of a client does at the server.\<close>

lemma handshake_registered:
  assumes "verifyExecCaps flags"
    and "clientInitialize w address port timeout flags client_globals_start = Inr (EC_SUCCESS, g, [(buf, False)])"
    and "client_get g = Inr capp"
    and "parse_handshake (cw_codec w) buf = Some (handshake_of capp)"
    and "mClientExecCaps app (mIdentity capp) = None"
    and "le_recv env = Recv_frames [mIdentity capp, buf]" and "sends_ok env"
  shows "server_pass (cw_codec w) env app =
    Inr (app\<lparr>mClientExecCaps := (mClientExecCaps app)(mIdentity capp \<mapsto> flags)\<rparr>, [], Continue)"
proof -
  let ?c = "ClientApp_new (cw_draws w) address port timeout flags"
  have "client_create (cw_draws w) address port timeout flags client_globals_start =
      (EC_SUCCESS, \<lparr>cliPtr = Some ?c, cliInstances = 1\<rparr>)"
    by (simp add: client_create_def client_globals_start_def)
  with assms(1,2) have "\<exists>app'. cliPtr g = Some app' \<and> mExecFunFlags app' = flags"
    by (auto simp: clientInitialize_def client_get_def client_init_def ClientApp_new_def Let_def
        split: option.splits sum.splits prod.splits if_splits)
  with assms(3) have "mExecFunFlags capp = flags" by (auto simp: client_get_def)
  then have "ucast (exec_functions (handshake_of capp)) = flags"
    by (simp add: handshake_of_def)
  with handshake_reply [OF assms(7,4), of "mIdentity capp" app] pass_unknown [OF assms(6,5)] assms(1)
  show ?thesis by auto
qed

text \<open>
  C19: the handshake carries a client's mask to the server unchanged. A client that initialises sends
  its identity and its mask in one frame; the server, hearing from that identity for the first time,
  registers exactly the byte the client was given and, the mask being a valid one, answers nothing.
\<close>

theorem handshake_session:
  assumes "verifyExecCaps flags"
    and "clientInitialize w address port timeout flags client_globals_start = Inr (EC_SUCCESS, g, [(buf, False)])"
    and "client_get g = Inr capp"
    and "parse_handshake (cw_codec w) buf = Some (handshake_of capp)"
    and "mClientExecCaps app (mIdentity capp) = None"
    and "le_recv env = Recv_frames [mIdentity capp, buf]" and "sends_ok env"
  shows "server_pass (cw_codec w) env app =
    Inr (app\<lparr>mClientExecCaps := (mClientExecCaps app)(mIdentity capp \<mapsto> flags)\<rparr>, [], Continue)"
  using assms by (rule handshake_registered)

text \<open>A concrete world, in which the first client program announces itself as \<^verbatim>\<open>abcdefgh\<close>.\<close>

definition first_handshake :: FirstHandshake where
  "first_handshake = \<lparr>client_name = ''abcdefgh'', exec_functions = ucast client_1_flags\<rparr>"

definition first_world :: client_world where
  "first_world = \<lparr>cw_log_ok = (\<lambda>_. True), cw_draws = [0, 1, 2, 3, 4, 5, 6, 7], cw_env = cmd_call pair_env,
     cw_connected = None, cw_codec = demo_codec\<lparr>ser_handshake := (\<lambda>h. Some ''H''),
       parse_handshake := (\<lambda>b. Some first_handshake)\<rparr>,
     cw_script = (\<lambda>i. (True, pair_env)), cw_stdin = []\<rparr>"

lemma client_1_flags_valid: "verifyExecCaps client_1_flags"
  by (simp add: client_1_flags_def flag_defs verify_iff)

lemma first_world_simps [simp]:
  "parse_handshake (cw_codec first_world) b = Some first_handshake"
  "parse_req (cw_codec first_world) b = parse_req demo_codec b"
  "ser_resp (cw_codec first_world) r = ser_resp demo_codec r"
  by (simp_all add: first_world_def)

lemma first_world_init:
  "\<exists>g capp. clientInitialize first_world ''ipc-server'' 24737 3000 client_1_flags client_globals_start =
      Inr (EC_SUCCESS, g, [(''H'', False)]) \<and> client_get g = Inr capp \<and> mIdentity capp = ''abcdefgh'' \<and>
    handshake_of capp = first_handshake"
  using client_1_flags_valid
  by (simp add: clientInitialize_def client_create_def client_globals_start_def client_get_def client_init_def
      ClientApp_new_def random_identity_def identity_chars_def sendFirstHandshake_def send_buffer_def pair_env_def
      handshake_of_def first_world_def first_handshake_def)

theorem handshake_session_witness:
  "\<exists>g capp. clientInitialize first_world ''ipc-server'' 24737 3000 client_1_flags client_globals_start =
       Inr (EC_SUCCESS, g, [(''H'', False)]) \<and> client_get g = Inr capp \<and> mIdentity capp = ''abcdefgh'' \<and>
     server_pass (cw_codec first_world) (demo_env [''abcdefgh'', ''H'']) (demo_server 4) =
       Inr ((demo_server 4)\<lparr>mClientExecCaps := [''c1'' \<mapsto> 4, ''abcdefgh'' \<mapsto> client_1_flags]\<rparr>, [], Continue)"
proof -
  obtain g capp where init: "clientInitialize first_world ''ipc-server'' 24737 3000 client_1_flags client_globals_start =
      Inr (EC_SUCCESS, g, [(''H'', False)])" "client_get g = Inr capp" "mIdentity capp = ''abcdefgh''"
      "handshake_of capp = first_handshake"
    using first_world_init by blast
  from handshake_session [OF client_1_flags_valid init(1,2), of "demo_server 4" "demo_env [''abcdefgh'', ''H'']"] init(3,4)
  have "server_pass (cw_codec first_world) (demo_env [''abcdefgh'', ''H'']) (demo_server 4) =
      Inr ((demo_server 4)\<lparr>mClientExecCaps := [''c1'' \<mapsto> 4, ''abcdefgh'' \<mapsto> client_1_flags]\<rparr>, [], Continue)"
    by simp
  with init show ?thesis by blast
qed





text \<open>
  C37: what the exit code of a program tells. When a program returns, its code is 0 exactly if help was
  asked for or it got as far as its session: for the server if logging could be set up, for the first
  client if also the address is not empty, for the second if also the shared object exists, can be
  opened and has all symbols. What happens in the session, a failed bind, a refused connection or a lost
  reply, has no influence on it.
\<close>

theorem exit_code_hides_failure:
  "(\<forall>opts w g rc g'. server_main opts w g = Inr (rc, g') \<longrightarrow>
      (rc = 0 \<longleftrightarrow> so_help opts \<or> sw_log_ok w (log_path ''./log/log.txt'' (so_logging opts)))) \<and>
   (\<forall>opts w g rc g'. client_1_main opts w g = Inr (rc, g') \<longrightarrow>
      (rc = 0 \<longleftrightarrow> co_help opts \<or>
         (cw_log_ok w (log_path ''./client_log_1/log.txt'' (co_logging opts)) \<and> c_str (co_address opts) \<noteq> []))) \<and>
   (\<forall>opts ld w g rc g'. client_2_main opts ld w g = Inr (rc, g') \<longrightarrow>
      (rc = 0 \<longleftrightarrow> co_help opts \<or>
         (ld_exists ld (co_so_path opts) \<and> ld_opens ld (co_so_path opts) \<and>
          (\<forall>name \<in> set client_symbols. ld_symbol ld name) \<and>
          cw_log_ok w (log_path ''./client_log_2/log.txt'' (co_logging opts)) \<and> c_str (co_address opts) \<noteq> [])))"
proof (intro conjI allI impI)
  fix opts w g rc g' assume "server_main opts w g = Inr (rc, g')"
  then show "rc = 0 \<longleftrightarrow> so_help opts \<or> sw_log_ok w (log_path ''./log/log.txt'' (so_logging opts))"
    by (auto simp: server_main_def initializeLogging_def deinitializeLogging_def cpp_bind_eq_Inr
        EC_SUCCESS_def EC_FAILURE_def Let_def split: if_splits)
next
  fix opts w g rc g' assume "client_1_main opts w g = Inr (rc, g')"
  then show "rc = 0 \<longleftrightarrow> co_help opts \<or>
      (cw_log_ok w (log_path ''./client_log_1/log.txt'' (co_logging opts)) \<and> c_str (co_address opts) \<noteq> [])"
    by (auto simp: client_1_main_def initializeLogging_def EC_SUCCESS_def EC_FAILURE_def Let_def
        dest: client_session_code split: if_splits)
next
  fix opts ld w g rc g' assume "client_2_main opts ld w g = Inr (rc, g')"
  then show "rc = 0 \<longleftrightarrow> co_help opts \<or>
      (ld_exists ld (co_so_path opts) \<and> ld_opens ld (co_so_path opts) \<and>
       (\<forall>name \<in> set client_symbols. ld_symbol ld name) \<and>
       cw_log_ok w (log_path ''./client_log_2/log.txt'' (co_logging opts)) \<and> c_str (co_address opts) \<noteq> [])"
    by (auto simp: client_2_main_def initializeLogging_def EC_SUCCESS_def EC_FAILURE_def Let_def mustSyms_iff
        dest: client_session_code split: if_splits option.splits)
qed

definition demo_world :: "bool \<Rightarrow> server_world" where
  "demo_world bound =
     \<lparr>sw_log_ok = (\<lambda>_. True), sw_site = \<lparr>site_file = [], site_line = 0, site_func = [], site_msg = None\<rparr>,
      sw_created = [True, True, True, True], sw_bound = bound, sw_codec = demo_codec, sw_events = [], sw_stopping = quiet_stop\<rparr>"

theorem exit_code_hides_failure_witness:
  "\<exists>g. server_main \<lparr>so_help = False, so_port = 24737, so_logging = ''./server_log'', so_threads = 4\<rparr>
     (demo_world False) server_globals_start = Inr (0, g)"
proof -
  let ?opts = "\<lparr>so_help = False, so_port = 24737, so_logging = ''./server_log'', so_threads = 4\<rparr>"
  have "\<exists>rc g. server_main ?opts (demo_world False) server_globals_start = Inr (rc, g)"
    by (simp add: server_main_def demo_world_def initializeLogging_def serverInitialize_def server_create_def
        server_globals_start_def server_get_def server_init_app_def ServerApp_new_def AlgoRunner_init_start
        serverDeinitialize_def server_deinit_app_def)
  then obtain rc g where m: "server_main ?opts (demo_world False) server_globals_start = Inr (rc, g)" by blast
  with exit_code_hides_failure [THEN conjunct1, rule_format, OF m] show ?thesis
    by (simp add: demo_world_def)
qed

text \<open>
  C38: a failed bind leaves the worker threads running. The runner is started before the socket is bound;
  when the bind fails the application is not marked initialised, so that neither its deinitialisation
  nor its destructor stops the threads.
\<close>

theorem failed_bind_keeps_workers:
  assumes "0 \<le> threads"
  shows "\<exists>app r. server_init_app site (replicate (nat threads) True) False (ServerApp_new address port threads) =
      Inr (EC_FAILURE, app) \<and>
    outImpl (mAlgoRunner app) = Some r \<and> running r \<and> length (workers r) = nat threads \<and>
    server_deinit_app site' ws app = Inr (EC_FAILURE, app) \<and> server_destroy site' ws app = Inr app"
  using assms
  by (simp add: server_init_app_def ServerApp_new_def AlgoRunner_init_start server_deinit_app_def server_destroy_def)

theorem failed_bind_keeps_workers_witness:
  "\<exists>app r site. server_init_app site (replicate (nat 4) True) False (ServerApp_new ''0.0.0.0'' 24737 4) =
      Inr (EC_FAILURE, app) \<and> outImpl (mAlgoRunner app) = Some r \<and> length (workers r) = 4"
  using failed_bind_keeps_workers [of 4 _ "''0.0.0.0''" 24737] by fastforce

text \<open>
  C39: the thread count is not checked. A negative one ends the server program with an uncaught
  exception; zero is accepted, and then no schedule ever runs a job: whatever the workers' events, the
  runner stays as it is.
\<close>

theorem thread_count_unchecked:
  assumes "\<not> so_help opts" and "sw_log_ok w (log_path ''./log/log.txt'' (so_logging opts))"
  shows "(so_threads opts < 0 \<longrightarrow> server_main opts w server_globals_start = Inl Length_Error) \<and>
    (so_threads opts = 0 \<longrightarrow>
      (\<exists>r. AlgoRunner_init (sw_created w) (so_threads opts) AlgoRunner_new =
          Inr (EC_SUCCESS, AlgoRunner_new\<lparr>outImpl := Some r\<rparr>) \<and>
        (\<forall>ws ts seq req. run_workers ws (snd (snd (impl_enqueue ts seq req r))) = Inr (snd (snd (impl_enqueue ts seq req r))))))"
proof (intro conjI impI)
  assume "so_threads opts < 0"
  with assms show "server_main opts w server_globals_start = Inl Length_Error"
    by (simp add: server_main_def initializeLogging_def serverInitialize_def server_create_def
        server_globals_start_def server_get_def server_init_app_def ServerApp_new_def AlgoRunner_init_start)
next
  assume z: "so_threads opts = 0"
  have stuck: "run_workers ws r = Inr r" if "workers r = []" for ws r
    using that
  proof (induction ws)
    case (Cons e ws)
    then show ?case by (cases e) (simp_all add: worker_take_def pop_job_def worker_publish_def)
  qed simp
  show "\<exists>r. AlgoRunner_init (sw_created w) (so_threads opts) AlgoRunner_new =
          Inr (EC_SUCCESS, AlgoRunner_new\<lparr>outImpl := Some r\<rparr>) \<and>
        (\<forall>ws ts seq req. run_workers ws (snd (snd (impl_enqueue ts seq req r))) = Inr (snd (snd (impl_enqueue ts seq req r))))"
    by (intro exI conjI allI) (simp add: z AlgoRunner_init_start, rule stuck, simp add: impl_enqueue_def Let_def z)
qed

theorem thread_count_unchecked_witness:
  "server_main \<lparr>so_help = False, so_port = 24737, so_logging = ''./server_log'', so_threads = - 1\<rparr>
     (demo_world True) server_globals_start = Inl Length_Error"
  using thread_count_unchecked [of "\<lparr>so_help = False, so_port = 24737, so_logging = ''./server_log'', so_threads = - 1\<rparr>"
      "demo_world True"] by (simp add: demo_world_def)

text \<open>
  C40: a client library that refuses a mask cannot be closed. When the mask is not valid nothing is
  created, and starting or deinitialising the client then follows a null pointer.
\<close>

theorem refused_client_has_no_object:
  assumes "\<not> verifyExecCaps flags"
  shows "clientInitialize w address port timeout flags client_globals_start = Inr (EC_FAILURE, client_globals_start, []) \<and>
    clientStart w client_globals_start = Inl Null_Deref \<and> clientDeinitialize client_globals_start = Inl Null_Deref"
  using assms
  by (simp add: clientInitialize_def clientStart_def clientDeinitialize_def client_get_def client_globals_start_def)

theorem refused_client_has_no_object_witness:
  "\<forall>w. clientInitialize w ''ipc-server'' 24737 3000 64 client_globals_start = Inr (EC_FAILURE, client_globals_start, [])"
proof -
  have "\<not> verifyExecCaps 64" by (simp add: verify_iff)
  from refused_client_has_no_object [OF this] show ?thesis by blast
qed

end
